theory Spec2Isabelle
  imports Complex_Main "HOL-Library.Multiset"
begin

section \<open>Python values, exceptions and containers\<close>

text \<open>
  An exception that leaves a function is the left summand of its result. Only the
  exception classes that the modelled code paths can raise are listed.
\<close>

datatype exn = KeyError | IndexError | ValueError | TypeError | RuntimeError

type_synonym 'a result = "exn + 'a"

definition bind_r :: "'a result \<Rightarrow> ('a \<Rightarrow> 'b result) \<Rightarrow> 'b result" where
  "bind_r r f = (case r of Inl e \<Rightarrow> Inl e | Inr x \<Rightarrow> f x)"

text \<open>
  A \<^verbatim>\<open>dict\<close> keeps insertion order: it is an association list whose keys are pairwise
  distinct. \<^verbatim>\<open>d[k] = v\<close> overwrites the value of a key already present, in place, and
  appends a new key at the end.
\<close>

type_synonym ('k, 'v) dict = "('k \<times> 'v) list"

fun dict_set :: "('k, 'v) dict \<Rightarrow> 'k \<Rightarrow> 'v \<Rightarrow> ('k, 'v) dict" where
  "dict_set [] k v = [(k, v)]"
| "dict_set ((k', v') # d) k v =
     (if k' = k then (k', v) # d else (k', v') # dict_set d k v)"

text \<open>
  A loop whose body may raise and that appends to one output list: the outputs of the
  iterations in order, or the first exception.
\<close>

fun for_each :: "'a list \<Rightarrow> ('a \<Rightarrow> 'b list result) \<Rightarrow> 'b list result" where
  "for_each [] body = Inr []"
| "for_each (x # xs) body =
     (case body x of
        Inl e \<Rightarrow> Inl e
      | Inr ys \<Rightarrow> (case for_each xs body of Inl e \<Rightarrow> Inl e | Inr zs \<Rightarrow> Inr (ys @ zs)))"

subsection \<open>The random generators\<close>

text \<open>
  \<^verbatim>\<open>random.sample\<close> and \<^verbatim>\<open>DataFrame.sample\<close> draw without replacement from the state
  of a global generator. The generator is an explicit argument here: the stream of the raw
  numbers it would produce next. Any stream is allowed, so a theorem about a sample holds
  for every outcome of the draw. The selection is the loop of \<^verbatim>\<open>random.sample\<close>:
  draw a position \<open>j\<close> of the pool, take \<open>pool[j]\<close>, move the last pool element into
  position \<open>j\<close> and shrink the pool by one.
\<close>

type_synonym rng = "nat \<Rightarrow> nat"

definition advance :: "nat \<Rightarrow> rng \<Rightarrow> rng" where
  "advance k g = (\<lambda>i. g (i + k))"

fun pool_sample :: "rng \<Rightarrow> 'a list \<Rightarrow> nat \<Rightarrow> 'a list" where
  "pool_sample g pool 0 = []"
| "pool_sample g pool (Suc k) =
     (let n = length pool; j = g 0 mod n
      in pool ! j # pool_sample (advance 1 g) (butlast (pool[j := pool ! (n - 1)])) k)"

text \<open>
  \<^verbatim>\<open>random.sample(population, k)\<close>: \<^verbatim>\<open>ValueError\<close> when \<open>k\<close> is negative or larger
  than the population; otherwise the sample and the generator after \<open>k\<close> draws.
\<close>

definition random_sample :: "rng \<Rightarrow> 'a list \<Rightarrow> int \<Rightarrow> ('a list \<times> rng) result" where
  "random_sample g population k =
     (if k < 0 \<or> int (length population) < k then Inl ValueError
      else Inr (pool_sample g population (nat k), advance (nat k) g))"

section \<open>medclip/prompts.py\<close>

subsection \<open>Template prompts: \<^verbatim>\<open>generate_chexpert_class_prompts\<close>, \<^verbatim>\<open>generate_covid_class_prompts\<close>\<close>

text \<open>
  \<^verbatim>\<open>constants.CHEXPERT_CLASS_PROMPTS\<close> and \<^verbatim>\<open>constants.COVID_CLASS_PROMPTS\<close> are not
  part of the sources at hand; both functions take the mapping as an argument. A mapping
  sends a class name to a template \<open>v\<close>, itself a dict from a component name (severity,
  subtype, location, ...) to a list of phrases.
\<close>

type_synonym template = "(string, string list) dict"
type_synonym prompts = "(string, string list) dict"

text \<open>
  \<^verbatim>\<open>v[keys[i]]\<close> with \<^verbatim>\<open>keys = list(v.keys())\<close>: the \<open>i\<close>-th value of \<open>v\<close> in insertion
  order (the keys of a dict are distinct), \<^verbatim>\<open>IndexError\<close> when \<open>v\<close> has no \<open>i\<close>-th key.
\<close>

definition component :: "template \<Rightarrow> nat \<Rightarrow> string list result" where
  "component v i = (if i < length v then Inr (snd (v ! i)) else Inl IndexError)"

text \<open>
  The nested loops that fill \<^verbatim>\<open>cls_prompts\<close>. An inner \<^verbatim>\<open>v[keys[i]]\<close> is evaluated
  once per iteration of the loop around it, so it raises only when that loop runs.
\<close>

definition chexpert_cls_prompts :: "template \<Rightarrow> string list result" where
  "chexpert_cls_prompts v =
     bind_r (component v 0) (\<lambda>l0. for_each l0 (\<lambda>k0.
     bind_r (component v 1) (\<lambda>l1. for_each l1 (\<lambda>k1.
     bind_r (component v 2) (\<lambda>l2. for_each l2 (\<lambda>k2.
       Inr [k0 @ '' '' @ k1 @ '' '' @ k2]))))))"

definition covid_cls_prompts :: "template \<Rightarrow> string list result" where
  "covid_cls_prompts v =
     bind_r (component v 0) (\<lambda>l0. for_each l0 (\<lambda>k0.
     bind_r (component v 1) (\<lambda>l1. for_each l1 (\<lambda>k1.
     bind_r (component v 2) (\<lambda>l2. for_each l2 (\<lambda>k2.
     bind_r (component v 3) (\<lambda>l3. for_each l3 (\<lambda>k3.
       Inr [k0 @ '' '' @ k1 @ '' '' @ k2 @ '' '' @ k3]))))))))"

text \<open>
  \<^verbatim>\<open>if n is not None and n < len(cls_prompts): random.sample(cls_prompts, n)
  else: cls_prompts\<close>; \<open>n\<close> is a Python integer or \<^verbatim>\<open>None\<close>.
\<close>

definition sample_prompts ::
  "int option \<Rightarrow> string list \<Rightarrow> rng \<Rightarrow> (string list \<times> rng) result" where
  "sample_prompts n cls_prompts g =
     (case n of
        None \<Rightarrow> Inr (cls_prompts, g)
      | Some m \<Rightarrow>
          if m < int (length cls_prompts) then random_sample g cls_prompts m
          else Inr (cls_prompts, g))"

text \<open>
  The loop over the classes, which the two functions share word for word but for the
  nested loops inside: the state is the dict \<^verbatim>\<open>prompts\<close> built so far and the generator.
  The \<^verbatim>\<open>print\<close> of the counts has no effect on the result and is left out.
\<close>

fun class_loop ::
  "(template \<Rightarrow> string list result) \<Rightarrow> int option \<Rightarrow> (string, template) dict \<Rightarrow>
     prompts \<times> rng \<Rightarrow> (prompts \<times> rng) result" where
  "class_loop cands n [] st = Inr st"
| "class_loop cands n ((k, v) # items) (prompts, g) =
     bind_r (cands v) (\<lambda>cls_prompts.
     bind_r (sample_prompts n cls_prompts g) (\<lambda>(chosen, g').
       class_loop cands n items (dict_set prompts k chosen, g')))"

definition generate_chexpert_class_prompts ::
  "(string, template) dict \<Rightarrow> int option \<Rightarrow> rng \<Rightarrow> (prompts \<times> rng) result" where
  "generate_chexpert_class_prompts CHEXPERT_CLASS_PROMPTS n g =
     class_loop chexpert_cls_prompts n CHEXPERT_CLASS_PROMPTS ([], g)"

definition generate_covid_class_prompts ::
  "(string, template) dict \<Rightarrow> int option \<Rightarrow> rng \<Rightarrow> (prompts \<times> rng) result" where
  "generate_covid_class_prompts COVID_CLASS_PROMPTS n g =
     class_loop covid_cls_prompts n COVID_CLASS_PROMPTS ([], g)"

text \<open>
  The cross product as the specification words it: every combination of one phrase per
  component list, joined by single spaces, the first list varying slowest.
\<close>

definition cross3 :: "string list \<Rightarrow> string list \<Rightarrow> string list \<Rightarrow> string list" where
  "cross3 l0 l1 l2 =
     concat (map (\<lambda>k0. concat (map (\<lambda>k1. map (\<lambda>k2. k0 @ '' '' @ k1 @ '' '' @ k2) l2) l1)) l0)"

definition cross4 ::
  "string list \<Rightarrow> string list \<Rightarrow> string list \<Rightarrow> string list \<Rightarrow> string list" where
  "cross4 l0 l1 l2 l3 =
     concat (map (\<lambda>k0. concat (map (\<lambda>k1. concat (map (\<lambda>k2.
       map (\<lambda>k3. k0 @ '' '' @ k1 @ '' '' @ k2 @ '' '' @ k3) l3) l2)) l1)) l0)"

text \<open>
  What one class receives from \<^verbatim>\<open>sample_prompts\<close>, as the specification words it: all
  candidates when no \<open>n\<close> is given or \<open>n\<close> is at least their number; otherwise \<open>n\<close> prompts
  taken from \<open>n\<close> different positions of the candidate list (so each prompt occurs in the
  sample at most as often as among the candidates, and the sample has no repetition when
  the candidates have none).
\<close>

definition drawn :: "int option \<Rightarrow> string list \<Rightarrow> string list \<Rightarrow> bool" where
  "drawn n candidates chosen =
     (case n of
        None \<Rightarrow> chosen = candidates
      | Some m \<Rightarrow>
          if m < int (length candidates)
          then int (length chosen) = m \<and> mset chosen \<subseteq># mset candidates \<and>
               set chosen \<subseteq> set candidates \<and> (distinct candidates \<longrightarrow> distinct chosen)
          else chosen = candidates)"

subsection \<open>Sentence prompts: \<^verbatim>\<open>generate_class_prompts\<close>\<close>

text \<open>
  \<^verbatim>\<open>df_sent\<close> is a table whose first column \<^verbatim>\<open>Reports\<close> holds the sentence and whose
  other columns hold one numeric label per task. A cell read from the file may be missing
  (NaN): \<open>None\<close>. A row gives its label per column name; only the names of the table's
  columns are ever looked up.
\<close>

record sentence =
  Reports :: "string option"
  labels :: "string \<Rightarrow> real option"

record dataframe =
  tasks :: "string list"
  sentences :: "sentence list"

text \<open>\<^verbatim>\<open>task\<close> is \<^verbatim>\<open>None\<close>, a list of task names, or a single task name.\<close>

datatype task_arg = TaskList "string list" | TaskName string

text \<open>\<^verbatim>\<open>df_sent.fillna(0)\<close>: a missing label becomes the number 0.\<close>

definition fillna :: "real option \<Rightarrow> real" where
  "fillna c = (case c of None \<Rightarrow> 0 | Some x \<Rightarrow> x)"

text \<open>
  \<^verbatim>\<open>df_sent.loc[df_sent['Reports'].map(len) > 4]\<close>, after \<^verbatim>\<open>fillna(0)\<close>: a missing
  sentence has become the integer 0, on which \<^verbatim>\<open>len\<close> raises \<^verbatim>\<open>TypeError\<close>; the
  lengths of all rows are computed before any row is dropped. Strings are lists of
  characters, and \<^verbatim>\<open>len\<close> counts them.
\<close>

definition long_reports :: "sentence list \<Rightarrow> (string \<times> (string \<Rightarrow> real)) list result" where
  "long_reports rs =
     (if \<exists>r \<in> set rs. Reports r = None then Inl TypeError
      else Inr (filter (\<lambda>(s, l). 4 < length s)
                 (map (\<lambda>r. (the (Reports r), \<lambda>t. fillna (labels r t))) rs)))"

text \<open>
  \<^verbatim>\<open>df_sent[(df_sent[task] == 1) & (df_sent[other_tasks] == 0).all(1)]\<close>.
  \<^verbatim>\<open>df_sent[task]\<close> raises \<^verbatim>\<open>KeyError\<close> for a name that is no column. The name of the
  text column is a column: its cells are strings, none of which equals 1, so no row is
  selected. Over no other task, \<^verbatim>\<open>all(1)\<close> is true.
\<close>

definition task_rows ::
  "string list \<Rightarrow> (string \<times> (string \<Rightarrow> real)) list \<Rightarrow> string \<Rightarrow>
     (string \<times> (string \<Rightarrow> real)) list result" where
  "task_rows all_tasks df task =
     (let other_tasks = filter (\<lambda>t. t \<noteq> task) all_tasks
      in if task = ''Reports'' then Inr []
         else if task \<notin> set all_tasks then Inl KeyError
         else Inr (filter (\<lambda>(s, l). l task = 1 \<and> (\<forall>t \<in> set other_tasks. l t = 0)) df))"

text \<open>
  \<^verbatim>\<open>if n is not None: if len(df_sub_sent) > n: df_sub_sent = df_sub_sent.sample(n)\<close>.
  \<^verbatim>\<open>DataFrame.sample\<close> draws rows without replacement and raises \<^verbatim>\<open>ValueError\<close> for a
  negative \<open>n\<close>, as \<open>random_sample\<close> does.
\<close>

definition sample_rows :: "int option \<Rightarrow> 'a list \<Rightarrow> rng \<Rightarrow> ('a list \<times> rng) result" where
  "sample_rows n df_sub_sent g =
     (case n of
        None \<Rightarrow> Inr (df_sub_sent, g)
      | Some m \<Rightarrow>
          if m < int (length df_sub_sent) then random_sample g df_sub_sent m
          else Inr (df_sub_sent, g))"

fun task_loop ::
  "string list \<Rightarrow> (string \<times> (string \<Rightarrow> real)) list \<Rightarrow> int option \<Rightarrow> string list \<Rightarrow>
     prompts \<times> rng \<Rightarrow> (prompts \<times> rng) result" where
  "task_loop all_tasks df n [] st = Inr st"
| "task_loop all_tasks df n (task # target_tasks) (prompts, g) =
     bind_r (task_rows all_tasks df task) (\<lambda>df_sub_sent.
     bind_r (sample_rows n df_sub_sent g) (\<lambda>(chosen, g').
       task_loop all_tasks df n target_tasks (dict_set prompts task (map fst chosen), g')))"

text \<open>
  \<^verbatim>\<open>target_tasks\<close>: the list given, the one name given, or all label columns
  (\<^verbatim>\<open>df_sent.columns.tolist()[1:]\<close>) when \<^verbatim>\<open>task\<close> is \<^verbatim>\<open>None\<close>.
\<close>

definition target_tasks :: "dataframe \<Rightarrow> task_arg option \<Rightarrow> string list" where
  "target_tasks df_sent task =
     (case task of
        None \<Rightarrow> tasks df_sent
      | Some (TaskList ts) \<Rightarrow> ts
      | Some (TaskName t) \<Rightarrow> [t])"

definition generate_class_prompts ::
  "dataframe \<Rightarrow> task_arg option \<Rightarrow> int option \<Rightarrow> rng \<Rightarrow> (prompts \<times> rng) result" where
  "generate_class_prompts df_sent task n g =
     bind_r (long_reports (sentences df_sent)) (\<lambda>df.
       task_loop (tasks df_sent) df n (target_tasks df_sent task) ([], g))"

text \<open>
  The rows that qualify for a task, as the specification words it, read on the table as
  it is passed in: the task names a label column (the name of the text column never
  does), the sentence is present and longer than 4 characters, the label of the task
  is 1, and the label of every other task is 0 or missing.
\<close>

definition qualifies :: "dataframe \<Rightarrow> string \<Rightarrow> sentence \<Rightarrow> bool" where
  "qualifies df_sent task r =
     (task \<in> set (tasks df_sent) \<and> task \<noteq> ''Reports'' \<and>
      (case Reports r of None \<Rightarrow> False | Some s \<Rightarrow> 4 < length s) \<and>
      labels r task = Some 1 \<and>
      (\<forall>t \<in> set (tasks df_sent). t \<noteq> task \<longrightarrow> labels r t = Some 0 \<or> labels r t = None))"

definition qualifying :: "dataframe \<Rightarrow> string \<Rightarrow> sentence list" where
  "qualifying df_sent task = filter (qualifies df_sent task) (sentences df_sent)"

text \<open>
  What one task receives: sentences of qualifying rows, each row used at most once; all
  of them, in table order, unless \<open>n\<close> is given and smaller than their number, and then
  exactly \<open>n\<close>.
\<close>

definition sentences_drawn :: "int option \<Rightarrow> sentence list \<Rightarrow> string list \<Rightarrow> bool" where
  "sentences_drawn n qs chosen =
     (mset (map Some chosen) \<subseteq># mset (map Reports qs) \<and>
      (case n of
         None \<Rightarrow> map Some chosen = map Reports qs
       | Some m \<Rightarrow>
           if m < int (length qs) then int (length chosen) = m
           else map Some chosen = map Reports qs))"

subsection \<open>Tokenising: \<^verbatim>\<open>process_class_prompts\<close>\<close>

text \<open>
  The tokenizer is the library's: an object with the attribute \<^verbatim>\<open>model_max_length\<close>,
  called on a list of texts. What a call returns depends on the texts, on the maximum
  length in force and on the \<^verbatim>\<open>truncation\<close> and \<^verbatim>\<open>padding\<close> arguments
  (\<^verbatim>\<open>return_tensors='pt'\<close> only fixes the container). The batch it returns holds the
  token ids and the attention mask, one row per text. A call may raise, so \<open>encode\<close>
  has a result type.
\<close>

record encoding =
  input_ids :: "nat list list"
  attention_mask :: "nat list list"

record tokenizer =
  model_max_length :: nat
  encode :: "nat \<Rightarrow> bool \<Rightarrow> bool \<Rightarrow> string list \<Rightarrow> encoding result"

text \<open>
  \<^verbatim>\<open>tokenizer(texts, truncation=..., padding=..., return_tensors='pt')\<close>. On an empty list
  of texts the call raises \<^verbatim>\<open>IndexError\<close>: the batch encoder collects the keys of its
  output from the encoding of the first text, \<^verbatim>\<open>tokens_and_encodings[0][0].keys()\<close>, and
  there is none.
\<close>

definition tokenizer_call ::
  "tokenizer \<Rightarrow> string list \<Rightarrow> bool \<Rightarrow> bool \<Rightarrow> encoding result" where
  "tokenizer_call tok texts truncation padding =
     (if texts = [] then Inl IndexError
      else encode tok (model_max_length tok) truncation padding texts)"

text \<open>
  The loop over \<^verbatim>\<open>cls_prompts.items()\<close>: it fills a dict in the order of the items and
  stops at the first call of the tokenizer that raises.
\<close>

fun tokenize_loop ::
  "tokenizer \<Rightarrow> prompts \<Rightarrow> (string, encoding) dict \<Rightarrow> (string, encoding) dict result" where
  "tokenize_loop tokenizer [] cls_prompt_inputs = Inr cls_prompt_inputs"
| "tokenize_loop tokenizer ((k, v) # items) cls_prompt_inputs =
     bind_r (tokenizer_call tokenizer v True True) (\<lambda>text_inputs.
       tokenize_loop tokenizer items (dict_set cls_prompt_inputs k text_inputs))"

text \<open>
  \<open>pretrained\<close> is the tokenizer that \<^verbatim>\<open>AutoTokenizer.from_pretrained(constants.BERT_TYPE)\<close>
  loads.
\<close>

definition process_class_prompts ::
  "tokenizer \<Rightarrow> prompts \<Rightarrow> (string, encoding) dict result" where
  "process_class_prompts pretrained cls_prompts =
     (let tokenizer = pretrained\<lparr>model_max_length := 77\<rparr>
      in tokenize_loop tokenizer cls_prompts [])"

section \<open>baselines/convirt/eval_convirt.py\<close>

subsection \<open>Tensor entries\<close>

text \<open>
  A tensor entry is a finite number, an infinity or NaN, as in floating point. The
  arithmetic on finite numbers is exact: the rounding of a result to 24 significant bits
  is not modelled. What is modelled is the range of \<^verbatim>\<open>float32\<close>, at the one place where
  the program can leave it, the normalisation of the raw embeddings (\<open>fl32\<close> below). NaN
  propagates through every operation, and the infinities follow IEEE 754. Zero has no
  sign: a zero divisor in this program is a norm or a count, which is \<open>+0\<close>.
\<close>

datatype scalar = Num real | PInf | NInf | NaN

text \<open>The infinity with the sign of \<open>s\<close>; NaN for \<open>s = 0\<close> (zero times an infinity, and \<open>0 / 0\<close>).\<close>

definition signed_inf :: "real \<Rightarrow> scalar" where
  "signed_inf s = (if s = 0 then NaN else if 0 < s then PInf else NInf)"

fun sneg :: "scalar \<Rightarrow> scalar" where
  "sneg (Num a) = Num (- a)"
| "sneg PInf = NInf"
| "sneg NInf = PInf"
| "sneg NaN = NaN"

fun sadd :: "scalar \<Rightarrow> scalar \<Rightarrow> scalar" where
  "sadd (Num a) (Num b) = Num (a + b)"
| "sadd NaN b = NaN"
| "sadd a NaN = NaN"
| "sadd PInf NInf = NaN"
| "sadd NInf PInf = NaN"
| "sadd PInf b = PInf"
| "sadd a PInf = PInf"
| "sadd NInf b = NInf"
| "sadd a NInf = NInf"

definition ssub :: "scalar \<Rightarrow> scalar \<Rightarrow> scalar" where
  "ssub a b = sadd a (sneg b)"

fun smul :: "scalar \<Rightarrow> scalar \<Rightarrow> scalar" where
  "smul (Num a) (Num b) = Num (a * b)"
| "smul NaN b = NaN"
| "smul a NaN = NaN"
| "smul (Num a) PInf = signed_inf a"
| "smul (Num a) NInf = signed_inf (- a)"
| "smul PInf (Num b) = signed_inf b"
| "smul NInf (Num b) = signed_inf (- b)"
| "smul PInf PInf = PInf"
| "smul NInf NInf = PInf"
| "smul PInf NInf = NInf"
| "smul NInf PInf = NInf"

fun sdiv :: "scalar \<Rightarrow> scalar \<Rightarrow> scalar" where
  "sdiv (Num a) (Num b) = (if b = 0 then signed_inf a else Num (a / b))"
| "sdiv NaN b = NaN"
| "sdiv a NaN = NaN"
| "sdiv (Num a) PInf = Num 0"
| "sdiv (Num a) NInf = Num 0"
| "sdiv PInf (Num b) = (if b < 0 then NInf else PInf)"
| "sdiv NInf (Num b) = (if b < 0 then PInf else NInf)"
| "sdiv a b = NaN"

fun smax :: "scalar \<Rightarrow> scalar \<Rightarrow> scalar" where
  "smax (Num a) (Num b) = Num (max a b)"
| "smax NaN b = NaN"
| "smax a NaN = NaN"
| "smax PInf b = PInf"
| "smax a PInf = PInf"
| "smax NInf b = b"
| "smax a NInf = a"

fun ssqrt :: "scalar \<Rightarrow> scalar" where
  "ssqrt (Num a) = (if a < 0 then NaN else Num (sqrt a))"
| "ssqrt PInf = PInf"
| "ssqrt NInf = NaN"
| "ssqrt NaN = NaN"

fun sexp :: "scalar \<Rightarrow> scalar" where
  "sexp (Num a) = Num (exp a)"
| "sexp PInf = PInf"
| "sexp NInf = Num 0"
| "sexp NaN = NaN"

fun sln :: "scalar \<Rightarrow> scalar" where
  "sln (Num a) = (if a < 0 then NaN else if a = 0 then NInf else Num (ln a))"
| "sln PInf = PInf"
| "sln NInf = NaN"
| "sln NaN = NaN"

text \<open>
  The range of \<^verbatim>\<open>float32\<close>. A result of magnitude \<open>(2 - 1 / 2 ^ 24) * 2 ^ 127\<close> or
  more overflows to an infinity. A result of magnitude below the smallest normal number
  \<open>1 / 2 ^ 126\<close> is rounded to the nearest multiple of \<open>1 / 2 ^ 149\<close>, ties to the even
  multiple, so a magnitude of \<open>1 / 2 ^ 150\<close> or less underflows to zero. In between the
  result is kept as it is.
\<close>

definition float_overflow :: real where
  "float_overflow = (2 - 1 / 2 ^ 24) * 2 ^ 127"

definition float_min_normal :: real where
  "float_min_normal = 1 / 2 ^ 126"

definition round_even :: "real \<Rightarrow> int" where
  "round_even x =
     (let f = \<lfloor>x\<rfloor>; d = x - of_int f
      in if d < 1 / 2 then f else if 1 / 2 < d then f + 1 else if even f then f else f + 1)"

definition fl32 :: "real \<Rightarrow> scalar" where
  "fl32 x =
     (if float_overflow \<le> x then PInf
      else if x \<le> - float_overflow then NInf
      else if \<bar>x\<bar> < float_min_normal then Num (of_int (round_even (x * 2 ^ 149)) / 2 ^ 149)
      else Num x)"

fun rnd :: "scalar \<Rightarrow> scalar" where
  "rnd (Num a) = fl32 a"
| "rnd a = a"

definition ssum :: "scalar list \<Rightarrow> scalar" where
  "ssum xs = foldr sadd xs (Num 0)"

text \<open>The arithmetic mean of a row: its sum over its length.\<close>

definition row_mean :: "scalar list \<Rightarrow> scalar" where
  "row_mean r = sdiv (ssum r) (Num (real (length r)))"

text \<open>
  The maximum of a row. It is taken of rows with at least one entry only: \<^verbatim>\<open>torch.max\<close>
  raises on a reduced dimension of size 0 (see \<open>torch_max\<close>).
\<close>

fun row_max :: "scalar list \<Rightarrow> scalar" where
  "row_max [] = NaN"
| "row_max [x] = x"
| "row_max (x # y # ys) = smax x (row_max (y # ys))"

text \<open>
  A two-dimensional tensor: its rows, and the size of dimension 1, which the rows do not
  tell when there is none. The size of dimension 0 is the number of rows.
\<close>

record tensor =
  ncols :: nat
  rows :: "scalar list list"

definition wf_tensor :: "tensor \<Rightarrow> bool" where
  "wf_tensor t = (\<forall>r \<in> set (rows t). length r = ncols t)"

text \<open>\<^verbatim>\<open>t.T\<close>: entry \<open>(j, i)\<close> of the transpose is entry \<open>(i, j)\<close>.\<close>

definition tensor_T :: "tensor \<Rightarrow> tensor" where
  "tensor_T t =
     \<lparr>ncols = length (rows t), rows = map (\<lambda>j. map (\<lambda>r. r ! j) (rows t)) [0..<ncols t]\<rparr>"

text \<open>
  \<^verbatim>\<open>x / x.norm(dim=-1, keepdim=True)\<close> on one row \<open>x\<close> of a batch of raw embeddings. The
  entries of a raw embedding are finite \<^verbatim>\<open>float32\<close> numbers of any magnitude. The norm is
  the square root of the sum of the squares, accumulated in \<^verbatim>\<open>float32\<close>: a square, a
  partial sum and a quotient can overflow or underflow. A norm that underflows to zero
  makes the quotients infinite or NaN; a norm that overflows makes them zero. The squares
  are summed from left to right; they are not negative, so another order of summation
  overflows on the same rows.
\<close>

definition sum_squares :: "real list \<Rightarrow> scalar" where
  "sum_squares x = foldl (\<lambda>acc a. rnd (sadd acc (fl32 (a * a)))) (Num 0) x"

definition l2_norm :: "real list \<Rightarrow> scalar" where
  "l2_norm x = ssqrt (sum_squares x)"

definition l2_normalize :: "real list \<Rightarrow> scalar list" where
  "l2_normalize x = map (\<lambda>a. rnd (sdiv (Num a) (l2_norm x))) x"

text \<open>
  The rows on which the normalisation stays inside the normal range of \<^verbatim>\<open>float32\<close>: no
  square of a non-zero entry and no quotient of a non-zero entry by the norm is below
  the smallest normal number, and the sum of the squares does not overflow.
\<close>

definition in_float_range :: "real list \<Rightarrow> bool" where
  "in_float_range x \<longleftrightarrow>
     (\<forall>a \<in> set x. a = 0 \<or> float_min_normal \<le> a * a)
     \<and> sum_list (map (\<lambda>a. a * a) x) < float_overflow
     \<and> (\<forall>a \<in> set x. a = 0 \<or> float_min_normal \<le> \<bar>a\<bar> / sqrt (sum_list (map (\<lambda>a. a * a) x)))"

text \<open>The norm of a row of tensor entries, in exact arithmetic.\<close>

definition row_norm :: "scalar list \<Rightarrow> scalar" where
  "row_norm x = ssqrt (ssum (map (\<lambda>a. smul a a) x))"

text \<open>
  \<^verbatim>\<open>torch.matmul(a, b.t())\<close> for two batches of rows of the same width: entry \<open>(i, j)\<close> is
  the inner product of row \<open>i\<close> of \<open>a\<close> and row \<open>j\<close> of \<open>b\<close>.
\<close>

definition dot :: "scalar list \<Rightarrow> scalar list \<Rightarrow> scalar" where
  "dot x y = ssum (map2 smul x y)"

definition matmul_t :: "scalar list list \<Rightarrow> scalar list list \<Rightarrow> tensor" where
  "matmul_t a b = \<lparr>ncols = length b, rows = map (\<lambda>x. map (\<lambda>y. dot x y) b) a\<rparr>"

definition tensor_div :: "tensor \<Rightarrow> real \<Rightarrow> tensor" where
  "tensor_div t c = t\<lparr>rows := map (map (\<lambda>a. sdiv a (Num c))) (rows t)\<rparr>"

text \<open>
  \<^verbatim>\<open>log_softmax\<close> of one row, as the library computes it: the maximum of the row is
  subtracted from every entry before the exponentials are summed, so no exponential of a
  finite row overflows; a row that holds \<open>+\<infinity>\<close> is NaN throughout.
\<close>

definition log_softmax :: "scalar list \<Rightarrow> scalar list" where
  "log_softmax r =
     (let m = row_max r;
          l = sln (ssum (map (\<lambda>a. sexp (ssub a m)) r))
      in map (\<lambda>a. ssub (ssub a m) l) r)"

text \<open>
  \<^verbatim>\<open>nn.CrossEntropyLoss()(input, target)\<close> with class indices as targets and the default
  mean reduction: per row, the negated log-softmax at the target; then the mean over the
  rows (NaN over no row). A target that is not below the number of columns is out of
  bounds: \<^verbatim>\<open>IndexError\<close>. (On a GPU the same condition is a device-side assertion,
  reported as \<^verbatim>\<open>RuntimeError\<close>; the model keeps one exception for it.)
\<close>

definition cross_entropy :: "tensor \<Rightarrow> nat list \<Rightarrow> scalar result" where
  "cross_entropy input target =
     (if length target \<noteq> length (rows input) then Inl ValueError
      else if \<exists>c \<in> set target. ncols input \<le> c then Inl IndexError
      else Inr (row_mean (map2 (\<lambda>r c. sneg (log_softmax r ! c)) (rows input) target)))"

text \<open>
  \<^verbatim>\<open>torch.mean(logits, 1)\<close> divides the sum of each row by the size of dimension 1;
  \<^verbatim>\<open>torch.max(logits, 1)[0]\<close> raises \<^verbatim>\<open>IndexError\<close> when that size is 0.
\<close>

definition torch_mean :: "tensor \<Rightarrow> scalar list" where
  "torch_mean t = map (\<lambda>r. sdiv (ssum r) (Num (real (ncols t)))) (rows t)"

definition torch_max :: "tensor \<Rightarrow> scalar list result" where
  "torch_max t = (if ncols t = 0 then Inl IndexError else Inr (map row_max (rows t)))"

text \<open>
  \<^verbatim>\<open>torch.stack(columns, 1)\<close> of one-dimensional tensors: \<^verbatim>\<open>RuntimeError\<close> on an empty
  list and on tensors of different sizes; otherwise entry \<open>(i, c)\<close> is entry \<open>i\<close> of the
  \<open>c\<close>-th tensor.
\<close>

definition torch_stack :: "scalar list list \<Rightarrow> tensor result" where
  "torch_stack columns =
     (if columns = [] then Inl RuntimeError
      else if \<exists>c \<in> set columns. length c \<noteq> length (hd columns) then Inl RuntimeError
      else Inr \<lparr>ncols = length columns,
                rows = map (\<lambda>i. map (\<lambda>c. c ! i) columns) [0..<length (hd columns)]\<rparr>)"

subsection \<open>The dual encoder: \<^verbatim>\<open>ConVIRT\<close>\<close>

text \<open>
  The two pretrained networks are the library's and are parameters of the model: the
  image network with its projection head maps a batch of images to one raw embedding row
  per image; the text network maps the token ids and the attention mask of a batch to one
  pooled row per text, which the linear projection head maps row by row to a raw
  embedding. Both raw embeddings have the same width (512). The raw embeddings are taken
  to be real numbers. Moving a tensor to the GPU (\<^verbatim>\<open>.cuda()\<close>) does not change it.
\<close>

record 'px ConVIRT =
  image_model :: "'px list \<Rightarrow> real list list"
  text_model :: "nat list list \<Rightarrow> nat list list \<Rightarrow> real list list"
  text_projection_head :: "real list \<Rightarrow> real list"
  lamb :: real
  temperature :: real

text \<open>\<^verbatim>\<open>ConVIRT.__init__\<close>: the networks are loaded, the two hyperparameters are fixed.\<close>

definition ConVIRT_init ::
  "('px list \<Rightarrow> real list list) \<Rightarrow> (nat list list \<Rightarrow> nat list list \<Rightarrow> real list list) \<Rightarrow>
     (real list \<Rightarrow> real list) \<Rightarrow> 'px ConVIRT" where
  "ConVIRT_init resnet bert head =
     \<lparr>image_model = resnet, text_model = bert, text_projection_head = head,
      lamb = 0.75, temperature = 0.1\<rparr>"

text \<open>The networks return one row per element of the batch they are given.\<close>

definition batch_preserving :: "'px ConVIRT \<Rightarrow> bool" where
  "batch_preserving m =
     ((\<forall>pixel_values. length (image_model m pixel_values) = length pixel_values) \<and>
      (\<forall>ids att_mask. length (text_model m ids att_mask) = length ids))"

record outputs =
  img_embeds :: "scalar list list"
  text_embeds :: "scalar list list"
  logits :: tensor
  logits_per_text :: tensor
  loss_value :: "scalar option"

text \<open>\<^verbatim>\<open>ConVIRT.compute_loss\<close>; \<^verbatim>\<open>len(logits)\<close> is the number of rows.\<close>

definition compute_loss :: "'px ConVIRT \<Rightarrow> tensor \<Rightarrow> scalar result" where
  "compute_loss m lg =
     bind_r (cross_entropy lg [0..<length (rows lg)]) (\<lambda>image_loss.
     bind_r (cross_entropy (tensor_T lg) [0..<length (rows (tensor_T lg))]) (\<lambda>caption_loss.
       Inr (sadd (smul (Num (lamb m)) image_loss) (smul (Num (1 - lamb m)) caption_loss))))"

text \<open>\<^verbatim>\<open>ConVIRT.forward\<close>.\<close>

definition ConVIRT_forward ::
  "'px ConVIRT \<Rightarrow> nat list list \<Rightarrow> 'px list \<Rightarrow> nat list list \<Rightarrow> bool \<Rightarrow> outputs result" where
  "ConVIRT_forward m ids pixel_values att_mask return_loss =
     (let img_embed = map l2_normalize (image_model m pixel_values);
          text_embed = map l2_normalize
                         (map (text_projection_head m) (text_model m ids att_mask));
          lg = tensor_div (matmul_t img_embed text_embed) (temperature m);
          outs = \<lparr>img_embeds = img_embed, text_embeds = text_embed,
                  logits = lg, logits_per_text = tensor_T lg, loss_value = None\<rparr>
      in if return_loss
         then bind_r (compute_loss m lg) (\<lambda>l. Inr (outs\<lparr>loss_value := Some l\<rparr>))
         else Inr outs)"

subsection \<open>The classifier head: \<^verbatim>\<open>ConVIRTClassifier\<close>\<close>

text \<open>
  \<^verbatim>\<open>self.model\<close> is any callable with the signature of \<^verbatim>\<open>ConVIRT.forward\<close>. The dict
  that \<^verbatim>\<open>forward\<close> returns has the keys \<^verbatim>\<open>logits\<close> (here \<open>class_similarities\<close>, the
  name of the variable it is built from) and \<^verbatim>\<open>class_names\<close>.
\<close>

record 'px ConVIRTClassifier =
  model :: "nat list list \<Rightarrow> 'px list \<Rightarrow> nat list list \<Rightarrow> bool \<Rightarrow> outputs result"
  ensemble :: bool

record classifier_outputs =
  class_similarities :: tensor
  class_names :: "string list"

text \<open>
  One iteration of the loop over \<^verbatim>\<open>prompt_inputs.items()\<close>: the entries of \<^verbatim>\<open>cls_text\<close>
  are passed to the model by keyword, with \<^verbatim>\<open>return_loss=False\<close>.
\<close>

definition class_similarity ::
  "'px ConVIRTClassifier \<Rightarrow> 'px list \<Rightarrow> encoding \<Rightarrow> scalar list result" where
  "class_similarity clf pixel_values cls_text =
     bind_r (model clf (input_ids cls_text) pixel_values (attention_mask cls_text) False)
       (\<lambda>medclip_outputs.
          if ensemble clf then Inr (torch_mean (logits medclip_outputs))
          else torch_max (logits medclip_outputs))"

fun classifier_loop ::
  "'px ConVIRTClassifier \<Rightarrow> 'px list \<Rightarrow> (string, encoding) dict \<Rightarrow>
     scalar list list \<times> string list \<Rightarrow> (scalar list list \<times> string list) result" where
  "classifier_loop clf pixel_values [] acc = Inr acc"
| "classifier_loop clf pixel_values ((cls_name, cls_text) # items) (sims, names) =
     bind_r (class_similarity clf pixel_values cls_text) (\<lambda>cls_sim.
       classifier_loop clf pixel_values items (sims @ [cls_sim], names @ [cls_name]))"

text \<open>\<^verbatim>\<open>ConVIRTClassifier.forward\<close>.\<close>

definition ConVIRTClassifier_forward ::
  "'px ConVIRTClassifier \<Rightarrow> 'px list \<Rightarrow> (string, encoding) dict \<Rightarrow> classifier_outputs result" where
  "ConVIRTClassifier_forward clf pixel_values prompt_inputs =
     bind_r (classifier_loop clf pixel_values prompt_inputs ([], [])) (\<lambda>(sims, names).
     bind_r (torch_stack sims) (\<lambda>stacked.
       Inr \<lparr>class_similarities = stacked, class_names = names\<rparr>))"

text \<open>
  The image-by-prompt logit matrix of one class: the \<^verbatim>\<open>logits\<close> that the dual encoder
  returns for the image batch and the tokenized prompts of the class.
\<close>

definition class_logits :: "'px ConVIRT \<Rightarrow> 'px list \<Rightarrow> encoding \<Rightarrow> tensor" where
  "class_logits m pixel_values cls_text =
     tensor_div
       (matmul_t (map l2_normalize (image_model m pixel_values))
          (map l2_normalize (map (text_projection_head m)
             (text_model m (input_ids cls_text) (attention_mask cls_text)))))
       (temperature m)"

text \<open>
  The cross entropy of a matrix against the identity assignment, target \<open>i\<close> for row
  \<open>i\<close>: what \<open>cross_entropy\<close> returns on the targets \<^verbatim>\<open>torch.arange\<close> when they are in
  bounds.
\<close>

definition ce_identity :: "scalar list list \<Rightarrow> scalar" where
  "ce_identity L = row_mean (map (\<lambda>i. sneg (log_softmax (L ! i) ! i)) [0..<length L])"

text \<open>
  The cross entropy of the specification over real numbers, written with the logarithm,
  the exponential and the sums of real analysis: the mean over the batch positions \<open>i\<close>
  of the logarithm of the sum of the exponentials of row \<open>i\<close> minus the diagonal entry
  \<open>(i, i)\<close>. And the loss of the specification:
  \<open>\<lambda> * CE(logits, I) + (1 - \<lambda>) * CE(logits\<^sup>T, I)\<close> with \<open>\<lambda> = 0.75\<close>.
\<close>

definition spec_cross_entropy :: "real list list \<Rightarrow> real" where
  "spec_cross_entropy A =
     (\<Sum>i\<leftarrow>[0..<length A]. ln (\<Sum>a\<leftarrow>A ! i. exp a) - A ! i ! i) / real (length A)"

definition spec_loss :: "real list list \<Rightarrow> real" where
  "spec_loss A = 0.75 * spec_cross_entropy A + 0.25 * spec_cross_entropy (transpose A)"

section \<open>Example data\<close>

text \<open>Small inputs on which the theorems below are instantiated and evaluated.\<close>

definition chexpert_example :: "(string, template) dict" where
  "chexpert_example =
     [(''Atelectasis'',
        [(''severity'', [[], ''mild'']), (''subtype'', [''atelectasis'']),
         (''location'', [''at the base'', ''left'', ''right''])])]"

definition covid_example :: "(string, template) dict" where
  "covid_example =
     [(''COVID'',
        [(''adjective'', [''patchy'', ''confluent'']), (''description'', [''opacity'']),
         (''subtype'', [''pneumonia'']), (''location'', [''left'', ''right''])])]"

definition repeated_phrase_example :: "(string, template) dict" where
  "repeated_phrase_example =
     [(''Edema'',
        [(''severity'', [''mild'', ''mild'', ''mild'']), (''subtype'', [''edema'']),
         (''location'', [''left''])])]"


text \<open>
  A sentence-label table with two tasks. The first row has no label for Edema, the third
  sentence is too short, the fourth row is positive for both tasks.
\<close>

definition sentence_table :: dataframe where
  "sentence_table =
     \<lparr>tasks = [''Atelectasis'', ''Edema''],
      sentences =
        [\<lparr>Reports = Some ''mild atelectasis at the base'',
          labels = (\<lambda>t. if t = ''Atelectasis'' then Some 1 else None)\<rparr>,
         \<lparr>Reports = Some ''pulmonary edema'',
          labels = (\<lambda>t. if t = ''Atelectasis'' then Some 0 else Some 1)\<rparr>,
         \<lparr>Reports = Some ''lung'',
          labels = (\<lambda>t. if t = ''Atelectasis'' then Some 1 else Some 0)\<rparr>,
         \<lparr>Reports = Some ''atelectasis and edema'',
          labels = (\<lambda>t. Some 1)\<rparr>,
         \<lparr>Reports = Some ''left basal atelectasis'',
          labels = (\<lambda>t. if t = ''Atelectasis'' then Some 1 else Some 0)\<rparr>]\<rparr>"

text \<open>
  A toy tokenizer: one token per character (its code), cut to the maximum length when
  truncation is on, padded on the right with 0 to the longest row when padding is on.
\<close>

definition char_tokenizer :: tokenizer where
  "char_tokenizer =
     \<lparr>model_max_length = 512,
      encode = (\<lambda>mx truncation padding texts.
        let ids = map (\<lambda>t. (if truncation then take mx else id) (map of_char t)) texts;
            width = (if padding then fold max (map length ids) 0 else 0)
        in Inr \<lparr>input_ids = map (\<lambda>r. r @ replicate (width - length r) 0) ids,
                attention_mask =
                  map (\<lambda>r. replicate (length r) 1 @ replicate (width - length r) 0) ids\<rparr>)\<rparr>"

text \<open>
  Stand-ins for the networks, of width 2: an image is a number, embedded as \<open>(3, 4)\<close> when
  it is even and as \<open>(0, 2)\<close> when it is odd; a text is pooled to a unit vector chosen by
  the parity of the sum of its token ids, and the head keeps the first two coordinates.
  \<open>zero_resnet\<close> embeds every image as the zero vector.
\<close>

definition toy_resnet :: "nat list \<Rightarrow> real list list" where
  "toy_resnet pixel_values = map (\<lambda>p. if even p then [3, 4] else [0, 2]) pixel_values"





definition toy_bert :: "nat list list \<Rightarrow> nat list list \<Rightarrow> real list list" where
  "toy_bert ids att_mask = map (\<lambda>t. if even (sum_list t) then [0, 1, 0] else [1, 0, 0]) ids"

definition toy_head :: "real list \<Rightarrow> real list" where
  "toy_head x = take 2 x"

definition toy_model :: "nat ConVIRT" where
  "toy_model = ConVIRT_init toy_resnet toy_bert toy_head"

text \<open>
  Two images; the tokenized prompts of a class with three prompts, with one prompt and
  with none; a tokenized prompt set of two classes, and one with a class without prompt.
\<close>

definition toy_images :: "nat list" where
  "toy_images = [0, 1]"

definition three_prompts :: encoding where
  "three_prompts = \<lparr>input_ids = [[1], [2], [3]], attention_mask = [[1], [1], [1]]\<rparr>"

definition one_prompt :: encoding where
  "one_prompt = \<lparr>input_ids = [[2]], attention_mask = [[1]]\<rparr>"

definition no_prompt :: encoding where
  "no_prompt = \<lparr>input_ids = [], attention_mask = []\<rparr>"

definition toy_prompt_inputs :: "(string, encoding) dict" where
  "toy_prompt_inputs = [(''Edema'', three_prompts), (''Normal'', one_prompt)]"

definition empty_class_inputs :: "(string, encoding) dict" where
  "empty_class_inputs = [(''Edema'', no_prompt), (''Normal'', one_prompt)]"

text \<open>Each row of a tensor reduced by the mean or by the maximum.\<close>

definition reduce_rows :: "bool \<Rightarrow> tensor \<Rightarrow> scalar list" where
  "reduce_rows ens t = map (if ens then row_mean else row_max) (rows t)"

section \<open>Verification\<close>

subsection \<open>Containers and sampling\<close>

lemma bind_r_Inr [simp]: "bind_r (Inr x) f = f x"
  by (simp add: bind_r_def)

lemma bind_r_Inl [simp]: "bind_r (Inl e) f = Inl e"
  by (simp add: bind_r_def)

lemma for_each_total:
  "for_each xs (\<lambda>x. Inr (f x)) = Inr (concat (map f xs))"
  by (induction xs) simp_all

lemma concat_singletons: "concat (map (\<lambda>x. [f x]) xs) = map f xs"
  by (induction xs) simp_all

lemma component_Inr: "i < length v \<Longrightarrow> component v i = Inr (snd (v ! i))"
  by (simp add: component_def)

lemma chexpert_cls_prompts_cross3:
  assumes "3 \<le> length v"
  shows "chexpert_cls_prompts v = Inr (cross3 (snd (v ! 0)) (snd (v ! 1)) (snd (v ! 2)))"
proof -
  from assms have "0 < length v" "1 < length v" "2 < length v" by arith+
  then have "component v 0 = Inr (snd (v ! 0))" "component v 1 = Inr (snd (v ! 1))"
    "component v 2 = Inr (snd (v ! 2))" by (simp_all only: component_Inr)
  then show ?thesis
    by (simp add: chexpert_cls_prompts_def cross3_def for_each_total concat_singletons)
qed

lemma covid_cls_prompts_cross4:
  assumes "4 \<le> length v"
  shows "covid_cls_prompts v =
    Inr (cross4 (snd (v ! 0)) (snd (v ! 1)) (snd (v ! 2)) (snd (v ! 3)))"
proof -
  from assms have "0 < length v" "1 < length v" "2 < length v" "3 < length v" by arith+
  then have "component v 0 = Inr (snd (v ! 0))" "component v 1 = Inr (snd (v ! 1))"
    "component v 2 = Inr (snd (v ! 2))" "component v 3 = Inr (snd (v ! 3))"
    by (simp_all only: component_Inr)
  then show ?thesis
    by (simp add: covid_cls_prompts_def cross4_def for_each_total concat_singletons)
qed

lemma length_concat_const:
  "(\<And>x. x \<in> set xs \<Longrightarrow> length (f x) = c) \<Longrightarrow> length (concat (map f xs)) = length xs * c"
  by (induction xs) simp_all

lemma length_cross3: "length (cross3 l0 l1 l2) = length l0 * length l1 * length l2"
  by (simp add: cross3_def length_concat_const mult.assoc)

lemma length_cross4:
  "length (cross4 l0 l1 l2 l3) = length l0 * length l1 * length l2 * length l3"
  by (simp add: cross4_def length_concat_const mult.assoc)

lemma length_pool_sample: "k \<le> length pool \<Longrightarrow> length (pool_sample g pool k) = k"
  by (induction k arbitrary: g pool) (simp_all add: Let_def)

lemma mset_pool_step:
  assumes "j < length pool"
  shows "add_mset (pool ! j) (mset (butlast (pool[j := pool ! (length pool - 1)]))) = mset pool"
proof -
  from assms have ne: "pool \<noteq> []" by auto
  then obtain ys y where p: "pool = ys @ [y]" by (metis append_butlast_last_id)
  show ?thesis
  proof (cases "j < length ys")
    case True
    then show ?thesis using p
      by (simp add: nth_append list_update_append mset_update)
  next
    case False
    with assms p have "j = length ys" by simp
    then show ?thesis using p by (simp add: nth_append)
  qed
qed

lemma mset_pool_sample:
  "k \<le> length pool \<Longrightarrow> mset (pool_sample g pool k) \<subseteq># mset pool"
proof (induction k arbitrary: g pool)
  case 0
  then show ?case by simp
next
  case (Suc k)
  let ?n = "length pool"
  let ?j = "g 0 mod ?n"
  let ?rest = "butlast (pool[?j := pool ! (?n - 1)])"
  from Suc.prems have "0 < ?n" by arith
  then have j: "?j < ?n" by (rule mod_less_divisor)
  have "length ?rest = ?n - 1" by simp
  with Suc.prems have "k \<le> length ?rest" by simp
  from Suc.IH[OF this] have "mset (pool_sample (advance 1 g) ?rest k) \<subseteq># mset ?rest" .
  then have "add_mset (pool ! ?j) (mset (pool_sample (advance 1 g) ?rest k))
      \<subseteq># add_mset (pool ! ?j) (mset ?rest)" by simp
  also have "\<dots> = mset pool" using mset_pool_step[OF j] .
  finally show ?case by (simp add: Let_def)
qed

lemma dict_set_fresh: "k \<notin> fst ` set d \<Longrightarrow> dict_set d k v = d @ [(k, v)]"
  by (induction d) auto

lemma fold_dict_set_distinct:
  "distinct (map fst xs) \<Longrightarrow> fst ` set xs \<inter> fst ` set d = {} \<Longrightarrow>
   fold (\<lambda>(k, v) acc. dict_set acc k (f v)) xs d = d @ map (\<lambda>(k, v). (k, f v)) xs"
proof (induction xs arbitrary: d)
  case Nil
  then show ?case by simp
next
  case (Cons x xs)
  obtain k v where x: "x = (k, v)" by (cases x)
  from Cons.prems x have fresh: "k \<notin> fst ` set d" by auto
  from Cons.prems x have "distinct (map fst xs)" and "fst ` set xs \<inter> fst ` set (d @ [(k, f v)]) = {}"
    by auto
  from Cons.IH[OF this] show ?case using x fresh by (simp add: dict_set_fresh)
qed

lemma distinct_sub_mset:
  assumes "mset xs \<subseteq># mset ys" "distinct ys"
  shows "distinct xs"
proof -
  have "count (mset xs) a = (if a \<in> set xs then 1 else 0)" for a
  proof (cases "a \<in> set xs")
    case True
    then have "1 \<le> count (mset xs) a" by (simp add: Suc_le_eq)
    moreover have "count (mset xs) a \<le> count (mset ys) a"
      using assms(1) by (rule mset_subset_eq_count)
    moreover have "count (mset ys) a \<le> 1"
      using assms(2) by (simp add: distinct_count_atmost_1)
    ultimately have "count (mset xs) a = 1" by linarith
    then show ?thesis using True by simp
  next
    case False
    then show ?thesis by (simp add: count_eq_zero_iff)
  qed
  then show ?thesis by (simp add: distinct_count_atmost_1)
qed

lemma random_sample_drawn:
  assumes "0 \<le> m" "m < int (length c)"
  shows "\<exists>chosen g'. random_sample g c m = Inr (chosen, g') \<and> int (length chosen) = m
     \<and> mset chosen \<subseteq># mset c \<and> set chosen \<subseteq> set c \<and> (distinct c \<longrightarrow> distinct chosen)"
proof -
  from assms have le: "nat m \<le> length c" by simp
  have sub: "mset (pool_sample g c (nat m)) \<subseteq># mset c" by (rule mset_pool_sample[OF le])
  then have "set (pool_sample g c (nat m)) \<subseteq> set c" by (metis set_mset_mono set_mset_mset)
  moreover have "distinct c \<longrightarrow> distinct (pool_sample g c (nat m))"
    using sub by (blast intro: distinct_sub_mset)
  ultimately show ?thesis using assms length_pool_sample[OF le] sub
    by (simp add: random_sample_def)
qed

lemma sample_prompts_drawn:
  assumes "\<forall>m. n = Some m \<longrightarrow> 0 \<le> m"
  shows "\<exists>chosen g'. sample_prompts n c g = Inr (chosen, g') \<and> drawn n c chosen"
proof (cases n)
  case None
  then show ?thesis by (simp add: sample_prompts_def drawn_def)
next
  case (Some m)
  with assms have "0 \<le> m" by simp
  show ?thesis
  proof (cases "m < int (length c)")
    case True
    from random_sample_drawn[OF \<open>0 \<le> m\<close> True, of g] show ?thesis
      using Some True by (auto simp: sample_prompts_def drawn_def)
  next
    case False
    then show ?thesis using Some by (simp add: sample_prompts_def drawn_def)
  qed
qed

lemma class_loop_drawn:
  assumes "\<forall>(k, v) \<in> set items. cands v = Inr (cf v)"
    and "\<forall>m. n = Some m \<longrightarrow> 0 \<le> m"
    and "distinct (map fst items)"
    and "fst ` set items \<inter> fst ` set P0 = {}"
  shows "\<exists>P g'. class_loop cands n items (P0, g) = Inr (P0 @ P, g') \<and>
           list_all2 (\<lambda>(k, v) (k', chosen). k' = k \<and> drawn n (cf v) chosen) items P"
  using assms
proof (induction items arbitrary: P0 g)
  case Nil
  then show ?case by simp
next
  case (Cons x items)
  obtain k v where x: "x = (k, v)" by (cases x)
  from Cons.prems x have cv: "cands v = Inr (cf v)" by simp
  from sample_prompts_drawn[OF Cons.prems(2)] obtain chosen g1 where
    sp: "sample_prompts n (cf v) g = Inr (chosen, g1)" and dr: "drawn n (cf v) chosen"
    by blast
  from Cons.prems x have fresh: "k \<notin> fst ` set P0" by auto
  have a: "\<forall>(k, v) \<in> set items. cands v = Inr (cf v)" using Cons.prems(1) by simp
  have d: "distinct (map fst items)" using Cons.prems(3) by simp
  have e: "fst ` set items \<inter> fst ` set (P0 @ [(k, chosen)]) = {}"
    using Cons.prems(3,4) x by auto
  from Cons.IH[OF a Cons.prems(2) d e, of g1] obtain P g' where
    r: "class_loop cands n items (P0 @ [(k, chosen)], g1) = Inr ((P0 @ [(k, chosen)]) @ P, g')"
    and l: "list_all2 (\<lambda>(k, v) (k', chosen). k' = k \<and> drawn n (cf v) chosen) items P"
    by blast
  have "class_loop cands n (x # items) (P0, g) = Inr (P0 @ ((k, chosen) # P), g')"
    using x cv sp r fresh by (simp add: dict_set_fresh)
  moreover have "list_all2 (\<lambda>(k, v) (k', chosen). k' = k \<and> drawn n (cf v) chosen)
      (x # items) ((k, chosen) # P)"
    using x l dr by simp
  ultimately show ?case by blast
qed

subsection \<open>The template prompt generators\<close>

text \<open>
  Claim C2, as amended. For a mapping (a dict, so with distinct class names) whose
  templates have the three component lists that \<^verbatim>\<open>generate_chexpert_class_prompts\<close> reads,
  respectively the four that \<^verbatim>\<open>generate_covid_class_prompts\<close> reads, and for \<open>n\<close> absent
  or a non-negative integer, both generators return one entry per class, in the order of
  the mapping. The candidates of a class are the cross product of its phrase lists,
  space-joined, in nested iteration order, and their number is the product of the lengths
  of the lists. If \<open>n\<close> is given and smaller than that number, the class receives exactly
  \<open>n\<close> prompts taken from \<open>n\<close> different positions of the candidate list: all of them are
  candidates, and they are pairwise distinct whenever the candidates are. Otherwise the
  class receives all candidates unchanged.
\<close>

theorem template_prompts_drawn_from_cross_product:
  assumes "distinct (map fst CHEXPERT)" and "\<forall>(k, v) \<in> set CHEXPERT. length v = 3"
    and "distinct (map fst COVID)" and "\<forall>(k, v) \<in> set COVID. length v = 4"
    and "\<forall>m. n = Some m \<longrightarrow> 0 \<le> m"
  shows "(\<exists>P g'. generate_chexpert_class_prompts CHEXPERT n g = Inr (P, g') \<and>
            list_all2 (\<lambda>(k, v) (k', chosen). k' = k \<and>
              drawn n (cross3 (snd (v ! 0)) (snd (v ! 1)) (snd (v ! 2))) chosen) CHEXPERT P)
       \<and> (\<exists>P g'. generate_covid_class_prompts COVID n g = Inr (P, g') \<and>
            list_all2 (\<lambda>(k, v) (k', chosen). k' = k \<and>
              drawn n (cross4 (snd (v ! 0)) (snd (v ! 1)) (snd (v ! 2)) (snd (v ! 3))) chosen) COVID P)
       \<and> length (cross3 l0 l1 l2) = length l0 * length l1 * length l2
       \<and> length (cross4 l0 l1 l2 l3) = length l0 * length l1 * length l2 * length l3"
proof -
  have c3: "\<forall>(k, v) \<in> set CHEXPERT.
      chexpert_cls_prompts v = Inr (cross3 (snd (v ! 0)) (snd (v ! 1)) (snd (v ! 2)))"
    using assms(2) by (auto simp: chexpert_cls_prompts_cross3)
  have c4: "\<forall>(k, v) \<in> set COVID.
      covid_cls_prompts v = Inr (cross4 (snd (v ! 0)) (snd (v ! 1)) (snd (v ! 2)) (snd (v ! 3)))"
    using assms(4) by (auto simp: covid_cls_prompts_cross4)
  have e: "fst ` set X \<inter> fst ` set ([] :: prompts) = {}" for X :: "(string, template) dict"
    by simp
  from class_loop_drawn[OF c3 assms(5) assms(1) e, of g]
  have "\<exists>P g'. generate_chexpert_class_prompts CHEXPERT n g = Inr (P, g') \<and>
            list_all2 (\<lambda>(k, v) (k', chosen). k' = k \<and>
              drawn n (cross3 (snd (v ! 0)) (snd (v ! 1)) (snd (v ! 2))) chosen) CHEXPERT P"
    by (simp add: generate_chexpert_class_prompts_def)
  moreover from class_loop_drawn[OF c4 assms(5) assms(3) e, of g]
  have "\<exists>P g'. generate_covid_class_prompts COVID n g = Inr (P, g') \<and>
            list_all2 (\<lambda>(k, v) (k', chosen). k' = k \<and>
              drawn n (cross4 (snd (v ! 0)) (snd (v ! 1)) (snd (v ! 2)) (snd (v ! 3))) chosen) COVID P"
    by (simp add: generate_covid_class_prompts_def)
  ultimately show ?thesis by (simp add: length_cross3 length_cross4)
qed

text \<open>
  The theorem at a CheXpert-like and a COVID-like template with \<open>n = 2\<close>, together with
  the prompts that the generator returns there and for \<open>n = 7\<close>, which exceeds the six
  candidates.
\<close>

theorem template_prompts_witness:
  "(\<exists>P g'. generate_chexpert_class_prompts chexpert_example (Some 2) (\<lambda>i. i + 4) = Inr (P, g') \<and>
      list_all2 (\<lambda>(k, v) (k', chosen). k' = k \<and>
        drawn (Some 2) (cross3 (snd (v ! 0)) (snd (v ! 1)) (snd (v ! 2))) chosen) chexpert_example P)
   \<and> (\<exists>P g'. generate_covid_class_prompts covid_example (Some 2) (\<lambda>i. i + 4) = Inr (P, g') \<and>
      list_all2 (\<lambda>(k, v) (k', chosen). k' = k \<and>
        drawn (Some 2) (cross4 (snd (v ! 0)) (snd (v ! 1)) (snd (v ! 2)) (snd (v ! 3))) chosen)
        covid_example P)
   \<and> map_sum id fst (generate_chexpert_class_prompts chexpert_example (Some 2) (\<lambda>i. i + 4)) =
       Inr [(''Atelectasis'', [''mild atelectasis left'', '' atelectasis at the base''])]
   \<and> map_sum id fst (generate_chexpert_class_prompts chexpert_example (Some 7) (\<lambda>i. i + 4)) =
       Inr [(''Atelectasis'',
         ['' atelectasis at the base'', '' atelectasis left'', '' atelectasis right'',
          ''mild atelectasis at the base'', ''mild atelectasis left'', ''mild atelectasis right''])]"
proof -
  have h1: "distinct (map fst chexpert_example)" by (simp add: chexpert_example_def)
  have h2: "\<forall>(k, v) \<in> set chexpert_example. length v = 3" by (simp add: chexpert_example_def)
  have h3: "distinct (map fst covid_example)" by (simp add: covid_example_def)
  have h4: "\<forall>(k, v) \<in> set covid_example. length v = 4" by (simp add: covid_example_def)
  have h5: "\<forall>m. Some (2::int) = Some m \<longrightarrow> 0 \<le> m" by simp
  have v1: "map_sum id fst (generate_chexpert_class_prompts chexpert_example (Some 2) (\<lambda>i. i + 4)) =
       Inr [(''Atelectasis'', [''mild atelectasis left'', '' atelectasis at the base''])]"
    by code_simp
  have v2: "map_sum id fst (generate_chexpert_class_prompts chexpert_example (Some 7) (\<lambda>i. i + 4)) =
       Inr [(''Atelectasis'',
         ['' atelectasis at the base'', '' atelectasis left'', '' atelectasis right'',
          ''mild atelectasis at the base'', ''mild atelectasis left'', ''mild atelectasis right''])]"
    by code_simp
  from template_prompts_drawn_from_cross_product[OF h1 h2 h3 h4 h5, of "\<lambda>i. i + 4"] v1 v2
  show ?thesis by blast
qed

text \<open>
  Claim C2 as it is worded promises \<open>n\<close> distinct prompts for every template mapping. A
  phrase list that repeats a phrase yields equal candidates, and a sample of two out of
  three equal candidates holds the same prompt twice.
\<close>

theorem template_prompts_repeated_counterexample:
  "map_sum id fst (generate_chexpert_class_prompts repeated_phrase_example (Some 2) (\<lambda>i. 0)) =
     Inr [(''Edema'', [''mild edema left'', ''mild edema left''])]
   \<and> (2::int) < int (length (cross3 [''mild'', ''mild'', ''mild''] [''edema''] [''left'']))
   \<and> \<not> distinct [''mild edema left'', ''mild edema left'']"
  by code_simp

subsection \<open>The prompt tokenizer\<close>

lemma tokenize_loop_Inr:
  assumes "distinct (map fst xs)" and "fst ` set xs \<inter> fst ` set d = {}"
  shows "tokenize_loop tok xs d = Inr out \<longleftrightarrow>
     (\<exists>es. out = d @ es \<and>
        list_all2 (\<lambda>(k, v) (k', e). k' = k \<and> v \<noteq> [] \<and>
                     encode tok (model_max_length tok) True True v = Inr e) xs es)"
  using assms
proof (induction xs arbitrary: d)
  case Nil
  then show ?case by auto
next
  case (Cons x xs)
  obtain k v where x: "x = (k, v)" by (cases x)
  from Cons.prems x have fresh: "k \<notin> fst ` set d" by auto
  show ?case
  proof (cases "tokenizer_call tok v True True")
    case (Inl e)
    then have "v = [] \<or> encode tok (model_max_length tok) True True v = Inl e"
      by (auto simp: tokenizer_call_def split: if_splits)
    then show ?thesis using Inl x by (auto simp: bind_r_def list_all2_Cons1)
  next
    case (Inr t)
    then have v: "v \<noteq> []" "encode tok (model_max_length tok) True True v = Inr t"
      by (auto simp: tokenizer_call_def split: if_splits)
    from Cons.prems x have "distinct (map fst xs)"
      and "fst ` set xs \<inter> fst ` set (d @ [(k, t)]) = {}"
      by auto
    from Cons.IH[OF this, unfolded append_assoc] show ?thesis
      using x Inr v fresh by (auto simp: bind_r_def dict_set_fresh list_all2_Cons1)
  qed
qed

lemma tokenize_loop_empty_class:
  assumes "(k, []) \<in> set xs"
  shows "\<exists>e. tokenize_loop tok xs d = Inl e"
  using assms
proof (induction xs arbitrary: d)
  case Nil
  then show ?case by simp
next
  case (Cons x xs)
  obtain k' v where x: "x = (k', v)" by (cases x)
  show ?case
  proof (cases "tokenizer_call tok v True True")
    case (Inl e)
    then show ?thesis using x by (simp add: bind_r_def)
  next
    case (Inr t)
    then have "v \<noteq> []" by (auto simp: tokenizer_call_def split: if_splits)
    with Cons.prems x have "(k, []) \<in> set xs" by auto
    from Cons.IH[OF this] show ?thesis using x Inr by (simp add: bind_r_def)
  qed
qed

lemma tokenize_loop_total:
  assumes "\<forall>(k, v) \<in> set xs. v \<noteq> [] \<and> (\<exists>e. encode tok (model_max_length tok) True True v = Inr e)"
  shows "\<exists>out. tokenize_loop tok xs d = Inr out"
  using assms
proof (induction xs arbitrary: d)
  case Nil
  then show ?case by simp
next
  case (Cons x xs)
  obtain k v where x: "x = (k, v)" by (cases x)
  from Cons.prems x obtain e where e: "v \<noteq> []" "encode tok (model_max_length tok) True True v = Inr e"
    by auto
  from Cons.prems have "\<forall>(k, v) \<in> set xs. v \<noteq> [] \<and> (\<exists>e. encode tok (model_max_length tok) True True v = Inr e)"
    by simp
  from Cons.IH[OF this] show ?case using x e by (simp add: bind_r_def tokenizer_call_def)
qed

text \<open>
  Claim C7, for the prompt sets on which the tokenizer returns. For every prompt set (a
  dict, so with distinct class names), \<^verbatim>\<open>process_class_prompts\<close> returns \<open>out\<close> exactly
  when \<open>out\<close> holds one entry per class, under the same keys and in the same order, every
  class has at least one prompt, and the entry of a class is what the tokenizer returns
  for the prompts of that class with the maximum sequence length set to 77, truncation
  enabled and padding enabled (padding to the longest row of the batch). It does return
  when every class has at least one prompt and the tokenizer returns on each class; it
  raises when some class has no prompt.
\<close>

theorem process_class_prompts_entries:
  assumes "distinct (map fst cls_prompts)"
  shows "(process_class_prompts pretrained cls_prompts = Inr out \<longleftrightarrow>
            list_all2 (\<lambda>(k, v) (k', e). k' = k \<and> v \<noteq> [] \<and>
                         encode pretrained 77 True True v = Inr e) cls_prompts out)
     \<and> (process_class_prompts pretrained cls_prompts = Inr out \<longrightarrow>
            map fst out = map fst cls_prompts)
     \<and> ((\<forall>(k, v) \<in> set cls_prompts.
            v \<noteq> [] \<and> (\<exists>e. encode pretrained 77 True True v = Inr e)) \<longrightarrow>
          (\<exists>out. process_class_prompts pretrained cls_prompts = Inr out))
     \<and> ((\<exists>(k, v) \<in> set cls_prompts. v = []) \<longrightarrow>
          (\<exists>e. process_class_prompts pretrained cls_prompts = Inl e))"
proof -
  let ?tok = "pretrained\<lparr>model_max_length := 77\<rparr>"
  let ?R = "\<lambda>(k, v) (k', e). k' = k \<and> v \<noteq> [] \<and> encode pretrained 77 True True v = Inr e"
  have iff: "process_class_prompts pretrained cls_prompts = Inr out \<longleftrightarrow>
      list_all2 ?R cls_prompts out" for out
    using tokenize_loop_Inr[OF assms, of "[]" ?tok out]
    by (simp add: process_class_prompts_def)
  have keys: "map fst out = map fst cls_prompts" if "list_all2 ?R cls_prompts out" for out
    using that by (induction rule: list_all2_induct) auto
  have tot: "\<exists>out. process_class_prompts pretrained cls_prompts = Inr out"
    if "\<forall>(k, v) \<in> set cls_prompts. v \<noteq> [] \<and> (\<exists>e. encode pretrained 77 True True v = Inr e)"
    using tokenize_loop_total[of cls_prompts ?tok "[]"] that
    by (simp add: process_class_prompts_def)
  have emp: "\<exists>e. process_class_prompts pretrained cls_prompts = Inl e"
    if "\<exists>(k, v) \<in> set cls_prompts. v = []"
  proof -
    from that obtain k where "(k, []) \<in> set cls_prompts" by auto
    from tokenize_loop_empty_class[OF this, of ?tok "[]"] show ?thesis
      by (simp add: process_class_prompts_def)
  qed
  from iff keys tot emp show ?thesis by blast
qed

text \<open>
  The theorem on a prompt set of two classes and the character tokenizer: the shorter
  prompt of the first class is padded to the length of the longer one, and the keys are
  those of the prompt set. With a second class that has no prompt the call raises.
\<close>

theorem process_class_prompts_witness:
  "distinct (map fst [(''Edema'', [''ab'', ''c'']), (''Normal'', [''d''])])
   \<and> process_class_prompts char_tokenizer [(''Edema'', [''ab'', ''c'']), (''Normal'', [''d''])] =
       Inr [(''Edema'', \<lparr>input_ids = [[97, 98], [99, 0]], attention_mask = [[1, 1], [1, 0]]\<rparr>),
            (''Normal'', \<lparr>input_ids = [[100]], attention_mask = [[1]]\<rparr>)]
   \<and> encode char_tokenizer 77 True True [''ab'', ''c''] =
       Inr \<lparr>input_ids = [[97, 98], [99, 0]], attention_mask = [[1, 1], [1, 0]]\<rparr>
   \<and> encode char_tokenizer 77 True True [''d''] =
       Inr \<lparr>input_ids = [[100]], attention_mask = [[1]]\<rparr>
   \<and> map fst [(''Edema'', \<lparr>input_ids = [[97, 98], [99, 0]], attention_mask = [[1, 1], [1, 0]]\<rparr>),
               (''Normal'', \<lparr>input_ids = [[100]], attention_mask = [[1]]\<rparr>)]
       = map fst [(''Edema'', [''ab'', ''c'']), (''Normal'', [''d''])]
   \<and> (\<exists>out. process_class_prompts char_tokenizer
                [(''Edema'', [''ab'', ''c'']), (''Normal'', [''d''])] = Inr out)
   \<and> distinct (map fst [(''Edema'', [''ab'']), (''Normal'', [])])
   \<and> (\<exists>e. process_class_prompts char_tokenizer [(''Edema'', [''ab'']), (''Normal'', [])] = Inl e)"
proof -
  let ?P = "[(''Edema'', [''ab'', ''c'']), (''Normal'', [''d''])]"
  let ?out = "[(''Edema'', \<lparr>input_ids = [[97, 98], [99, 0]], attention_mask = [[1, 1], [1, 0]]\<rparr>),
            (''Normal'', \<lparr>input_ids = [[100]], attention_mask = [[1]]\<rparr>)]"
  let ?Q = "[(''Edema'', [''ab'']), (''Normal'', [] :: string list)]"
  have h: "distinct (map fst ?P)" by simp
  have e1: "encode char_tokenizer 77 True True [''ab'', ''c''] =
       Inr \<lparr>input_ids = [[97, 98], [99, 0]], attention_mask = [[1, 1], [1, 0]]\<rparr>"
    by code_simp
  have e2: "encode char_tokenizer 77 True True [''d''] =
       Inr \<lparr>input_ids = [[100]], attention_mask = [[1]]\<rparr>"
    by code_simp
  have r: "list_all2 (\<lambda>(k, v) (k', e). k' = k \<and> v \<noteq> [] \<and>
                encode char_tokenizer 77 True True v = Inr e) ?P ?out"
    by (simp add: e1 e2)
  have a: "process_class_prompts char_tokenizer ?P = Inr ?out"
    using process_class_prompts_entries[OF h, of char_tokenizer ?out, THEN conjunct1] r
    by (rule iffD2)
  have k: "map fst ?out = map fst ?P"
    using process_class_prompts_entries[OF h, of char_tokenizer ?out, THEN conjunct2,
        THEN conjunct1] a
    by (rule mp)
  have t: "\<forall>(k, v) \<in> set ?P. v \<noteq> [] \<and> (\<exists>e. encode char_tokenizer 77 True True v = Inr e)"
    by (simp add: e1 e2)
  have x: "\<exists>out. process_class_prompts char_tokenizer ?P = Inr out"
    using process_class_prompts_entries[OF h, of char_tokenizer ?out, THEN conjunct2,
        THEN conjunct2, THEN conjunct1] t
    by (rule mp)
  have g: "distinct (map fst ?Q)" by simp
  have q: "\<exists>(k, v) \<in> set ?Q. v = []" by simp
  have b: "\<exists>e. process_class_prompts char_tokenizer ?Q = Inl e"
    using process_class_prompts_entries[OF g, of char_tokenizer "[]", THEN conjunct2,
        THEN conjunct2, THEN conjunct2] q
    by (rule mp)
  from h a e1 e2 k x g b show ?thesis by (intro conjI)
qed

text \<open>
  Claim C7 as worded, for every prompt set, fails. With \<open>n = 0\<close> the template generator
  returns a prompt set whose class has no prompt, and on it \<^verbatim>\<open>process_class_prompts\<close>
  raises \<^verbatim>\<open>IndexError\<close> instead of returning an entry for the class.
\<close>

theorem empty_class_tokenizer_counterexample:
  "map_sum id fst (generate_chexpert_class_prompts chexpert_example (Some 0) (\<lambda>i. 0)) =
     Inr [(''Atelectasis'', [])]
   \<and> process_class_prompts char_tokenizer [(''Atelectasis'', [])] = Inl IndexError"
  by code_simp

subsection \<open>The sentence-sampling prompt generator\<close>

lemma fillna_eq_1: "fillna c = 1 \<longleftrightarrow> c = Some 1"
  by (cases c) (simp_all add: fillna_def)

lemma fillna_eq_0: "fillna c = 0 \<longleftrightarrow> c = Some 0 \<or> c = None"
  by (cases c) (simp_all add: fillna_def)

lemma set_dict_set: "set (dict_set d k v) \<subseteq> insert (k, v) (set d)"
  by (induction d) (auto split: if_splits)

lemma task_rows_qualifying:
  assumes lr: "long_reports (sentences df_sent) = Inr df"
    and tr: "task_rows (tasks df_sent) df task = Inr sub"
  shows "map (Some \<circ> fst) sub = map Reports (qualifying df_sent task)"
proof -
  let ?conv = "\<lambda>r. (the (Reports r), \<lambda>t. fillna (labels r t))"
  let ?long = "\<lambda>(s :: string, l :: string \<Rightarrow> real). 4 < length s"
  from lr have present: "\<forall>r \<in> set (sentences df_sent). Reports r \<noteq> None"
    and df: "df = filter ?long (map ?conv (sentences df_sent))"
    by (auto simp: long_reports_def split: if_splits)
  show ?thesis
  proof (cases "task = ''Reports'' \<or> task \<notin> set (tasks df_sent)")
    case True
    with tr have "sub = []" by (auto simp: task_rows_def Let_def split: if_splits)
    moreover from True have "qualifying df_sent task = []"
      by (auto simp: qualifying_def qualifies_def)
    ultimately show ?thesis by simp
  next
    case False
    let ?sel = "\<lambda>(s :: string, l :: string \<Rightarrow> real). l task = 1 \<and>
        (\<forall>t \<in> set (filter (\<lambda>t. t \<noteq> task) (tasks df_sent)). l t = 0)"
    from tr False have sub: "sub = filter ?sel df"
      by (auto simp: task_rows_def Let_def split: if_splits)
    have eq: "(?long (?conv r) \<and> ?sel (?conv r)) = qualifies df_sent task r"
      if "r \<in> set (sentences df_sent)" for r
    proof -
      from present that obtain s where "Reports r = Some s" by auto
      then show ?thesis using False
        by (auto simp: qualifies_def fillna_eq_1 fillna_eq_0)
    qed
    have "sub = map ?conv (filter (\<lambda>r. ?long (?conv r) \<and> ?sel (?conv r)) (sentences df_sent))"
      unfolding sub df by (simp add: filter_map comp_def case_prod_unfold)
    also have "filter (\<lambda>r. ?long (?conv r) \<and> ?sel (?conv r)) (sentences df_sent)
        = qualifying df_sent task"
      unfolding qualifying_def by (rule filter_cong) (simp_all only: eq)
    finally have "sub = map ?conv (qualifying df_sent task)" .
    moreover have "map (Some \<circ> fst) (map ?conv (qualifying df_sent task))
        = map Reports (qualifying df_sent task)"
      using present by (auto simp: qualifying_def)
    ultimately show ?thesis by simp
  qed
qed

lemma sample_rows_drawn:
  assumes "sample_rows n sub g = Inr (chosen, g')"
  shows "mset chosen \<subseteq># mset sub \<and>
    (case n of None \<Rightarrow> chosen = sub
     | Some m \<Rightarrow> if m < int (length sub) then int (length chosen) = m else chosen = sub)"
proof (cases n)
  case None
  with assms show ?thesis by (simp add: sample_rows_def)
next
  case (Some m)
  show ?thesis
  proof (cases "m < int (length sub)")
    case True
    with assms Some have rs: "random_sample g sub m = Inr (chosen, g')"
      by (simp add: sample_rows_def)
    then have m0: "0 \<le> m" by (auto simp: random_sample_def split: if_splits)
    from random_sample_drawn[OF m0 True, of g] rs show ?thesis using Some True by auto
  next
    case False
    with assms Some show ?thesis by (simp add: sample_rows_def)
  qed
qed

lemma sample_rows_total:
  assumes "\<forall>m. n = Some m \<longrightarrow> 0 \<le> m"
  shows "\<exists>chosen g'. sample_rows n sub g = Inr (chosen, g')"
proof (cases n)
  case None
  then show ?thesis by (simp add: sample_rows_def)
next
  case (Some m)
  with assms have "0 \<le> m" by simp
  then show ?thesis using Some by (simp add: sample_rows_def random_sample_def)
qed

lemma task_step_drawn:
  assumes lr: "long_reports (sentences df_sent) = Inr df"
    and tr: "task_rows (tasks df_sent) df task = Inr sub"
    and sr: "sample_rows n sub g = Inr (chosen, g')"
  shows "sentences_drawn n (qualifying df_sent task) (map fst chosen)"
proof -
  have q: "map (Some \<circ> fst) sub = map Reports (qualifying df_sent task)"
    by (rule task_rows_qualifying[OF lr tr])
  then have len: "length sub = length (qualifying df_sent task)"
    by (metis length_map)
  from sample_rows_drawn[OF sr] have sub: "mset chosen \<subseteq># mset sub"
    and cnt: "(case n of None \<Rightarrow> chosen = sub
     | Some m \<Rightarrow> if m < int (length sub) then int (length chosen) = m else chosen = sub)"
    by simp_all
  from sub have "image_mset (Some \<circ> fst) (mset chosen) \<subseteq># image_mset (Some \<circ> fst) (mset sub)"
    by (rule image_mset_subseteq_mono)
  then have a: "mset (map Some (map fst chosen)) \<subseteq># mset (map Reports (qualifying df_sent task))"
    using q by (metis map_map mset_map)
  have b: "map Some (map fst sub) = map Reports (qualifying df_sent task)"
    using q by simp
  show ?thesis using a b cnt len
    by (auto simp: sentences_drawn_def split: option.splits if_splits)
qed

lemma task_loop_drawn:
  assumes lr: "long_reports (sentences df_sent) = Inr df"
    and run: "task_loop (tasks df_sent) df n targets (P0, g) = Inr (P, g')"
    and inv: "\<forall>(t, ps) \<in> set P0. sentences_drawn n (qualifying df_sent t) ps"
  shows "\<forall>(t, ps) \<in> set P. sentences_drawn n (qualifying df_sent t) ps"
  using run inv
proof (induction targets arbitrary: P0 g)
  case Nil
  then show ?case by simp
next
  case (Cons task targets)
  from Cons.prems(1) obtain sub where tr: "task_rows (tasks df_sent) df task = Inr sub"
    by (cases "task_rows (tasks df_sent) df task") simp_all
  with Cons.prems(1) obtain chosen g1 where sr: "sample_rows n sub g = Inr (chosen, g1)"
    by (cases "sample_rows n sub g") auto
  from Cons.prems(1) tr sr have rest:
    "task_loop (tasks df_sent) df n targets (dict_set P0 task (map fst chosen), g1) = Inr (P, g')"
    by simp
  have "\<forall>(t, ps) \<in> set (dict_set P0 task (map fst chosen)).
      sentences_drawn n (qualifying df_sent t) ps"
    using set_dict_set[of P0 task "map fst chosen"] Cons.prems(2) task_step_drawn[OF lr tr sr]
    by auto
  from Cons.IH[OF rest this] show ?case .
qed

lemma fst_set_dict_set: "fst ` set (dict_set d k v) = insert k (fst ` set d)"
proof (induction d)
  case Nil
  then show ?case by simp
next
  case (Cons x d)
  obtain k' v' where "x = (k', v')" by (cases x)
  with Cons show ?case by (cases "k' = k") auto
qed

lemma task_loop_total:
  assumes "set targets \<subseteq> insert ''Reports'' (set all_tasks)"
    and "\<forall>m. n = Some m \<longrightarrow> 0 \<le> m"
  shows "\<exists>P g'. task_loop all_tasks df n targets (P0, g) = Inr (P, g') \<and>
           fst ` set P = fst ` set P0 \<union> set targets"
  using assms(1)
proof (induction targets arbitrary: P0 g)
  case Nil
  then show ?case by simp
next
  case (Cons task targets)
  from Cons.prems have "task = ''Reports'' \<or> task \<in> set all_tasks" by auto
  then have "\<exists>sub. task_rows all_tasks df task = Inr sub"
    by (auto simp: task_rows_def Let_def)
  then obtain sub where tr: "task_rows all_tasks df task = Inr sub" ..
  from sample_rows_total[OF assms(2)] obtain chosen g1 where
    sr: "sample_rows n sub g = Inr (chosen, g1)" by blast
  from Cons.prems have "set targets \<subseteq> insert ''Reports'' (set all_tasks)" by simp
  from Cons.IH[OF this, of "dict_set P0 task (map fst chosen)" g1] obtain P g' where
    "task_loop all_tasks df n targets (dict_set P0 task (map fst chosen), g1) = Inr (P, g')"
    "fst ` set P = fst ` set (dict_set P0 task (map fst chosen)) \<union> set targets"
    by blast
  then show ?case using tr sr by (auto simp: fst_set_dict_set)
qed

lemma task_loop_unknown:
  assumes "t \<in> set targets" "t \<noteq> ''Reports''" "t \<notin> set all_tasks"
  shows "isl (task_loop all_tasks df n targets (P0, g))"
  using assms(1)
proof (induction targets arbitrary: P0 g)
  case Nil
  then show ?case by simp
next
  case (Cons task targets)
  show ?case
  proof (cases "task_rows all_tasks df task")
    case (Inl e)
    then show ?thesis by simp
  next
    case (Inr sub)
    with assms(2,3) have "task \<noteq> t" by (auto simp: task_rows_def Let_def split: if_splits)
    with Cons.prems have tin: "t \<in> set targets" by simp
    show ?thesis
    proof (cases "sample_rows n sub g")
      case (Inl e)
      with Inr show ?thesis by simp
    next
      case (Inr r)
      obtain chosen g1 where "r = (chosen, g1)" by (cases r)
      with Inr \<open>task_rows all_tasks df task = Inr sub\<close> Cons.IH[OF tin] show ?thesis by simp
    qed
  qed
qed

lemma task_loop_KeyError:
  assumes "t \<in> set targets" "t \<noteq> ''Reports''" "t \<notin> set all_tasks"
    and "\<forall>m. n = Some m \<longrightarrow> 0 \<le> m"
  shows "task_loop all_tasks df n targets (P0, g) = Inl KeyError"
  using assms(1)
proof (induction targets arbitrary: P0 g)
  case Nil
  then show ?case by simp
next
  case (Cons task targets)
  show ?case
  proof (cases "task_rows all_tasks df task")
    case (Inl e)
    then have "e = KeyError" by (auto simp: task_rows_def Let_def split: if_splits)
    with Inl show ?thesis by simp
  next
    case (Inr sub)
    with assms(2,3) have "task \<noteq> t" by (auto simp: task_rows_def Let_def split: if_splits)
    with Cons.prems have tin: "t \<in> set targets" by simp
    from sample_rows_total[OF assms(4)] obtain chosen g1 where
      "sample_rows n sub g = Inr (chosen, g1)" by blast
    with Inr Cons.IH[OF tin] show ?thesis by simp
  qed
qed

text \<open>
  Claim C4, as amended. When no sentence of the table is missing, every requested task is
  a column of the table and \<open>n\<close> is absent or not negative, \<^verbatim>\<open>generate_class_prompts\<close>
  returns, with one entry per requested task. Whenever it returns, every prompt of a task
  is the sentence of a row of the table whose label for that task is 1, whose label for
  every other task is 0 or missing (\<^verbatim>\<open>fillna(0)\<close> reads a missing label as 0) and whose
  text is longer than 4 characters; each qualifying row is used at most once; and when
  more than \<open>n\<close> rows qualify, exactly \<open>n\<close> of them are returned, otherwise all.
\<close>

theorem sentence_prompts_qualify:
  "((\<forall>r \<in> set (sentences df_sent). Reports r \<noteq> None) \<and>
    set (target_tasks df_sent task) \<subseteq> insert ''Reports'' (set (tasks df_sent)) \<and>
    (\<forall>m. n = Some m \<longrightarrow> 0 \<le> m)
    \<longrightarrow> (\<exists>P g'. generate_class_prompts df_sent task n g = Inr (P, g') \<and>
          fst ` set P = set (target_tasks df_sent task)))
   \<and> (\<forall>P g' t ps. generate_class_prompts df_sent task n g = Inr (P, g') \<and> (t, ps) \<in> set P
        \<longrightarrow> sentences_drawn n (qualifying df_sent t) ps \<and>
            (\<forall>p \<in> set ps. \<exists>r \<in> set (sentences df_sent).
               Reports r = Some p \<and> qualifies df_sent t r))"
proof (intro conjI impI allI)
  assume a: "(\<forall>r \<in> set (sentences df_sent). Reports r \<noteq> None) \<and>
    set (target_tasks df_sent task) \<subseteq> insert ''Reports'' (set (tasks df_sent)) \<and>
    (\<forall>m. n = Some m \<longrightarrow> 0 \<le> m)"
  then obtain df where lr: "long_reports (sentences df_sent) = Inr df"
    by (auto simp: long_reports_def)
  from a have "set (target_tasks df_sent task) \<subseteq> insert ''Reports'' (set (tasks df_sent))"
    and "\<forall>m. n = Some m \<longrightarrow> 0 \<le> m" by simp_all
  from task_loop_total[OF this, of df "[]" g] lr
  show "\<exists>P g'. generate_class_prompts df_sent task n g = Inr (P, g') \<and>
          fst ` set P = set (target_tasks df_sent task)"
    by (simp add: generate_class_prompts_def)
next
  fix P g' t ps
  assume b: "generate_class_prompts df_sent task n g = Inr (P, g') \<and> (t, ps) \<in> set P"
  then obtain df where lr: "long_reports (sentences df_sent) = Inr df"
    by (cases "long_reports (sentences df_sent)") (simp_all add: generate_class_prompts_def)
  with b have run: "task_loop (tasks df_sent) df n (target_tasks df_sent task) ([], g) = Inr (P, g')"
    by (simp add: generate_class_prompts_def)
  have "\<forall>(t, ps) \<in> set P. sentences_drawn n (qualifying df_sent t) ps"
    by (rule task_loop_drawn[OF lr run]) simp
  with b show sd: "sentences_drawn n (qualifying df_sent t) ps" by auto
  show "\<forall>p \<in> set ps. \<exists>r \<in> set (sentences df_sent). Reports r = Some p \<and> qualifies df_sent t r"
  proof
    fix p assume "p \<in> set ps"
    then have "Some p \<in># mset (map Some ps)" by simp
    with sd have "Some p \<in># mset (map Reports (qualifying df_sent t))"
      unfolding sentences_drawn_def by (blast dest: mset_subset_eqD)
    then obtain r where "r \<in> set (qualifying df_sent t)" "Reports r = Some p" by auto
    then show "\<exists>r \<in> set (sentences df_sent). Reports r = Some p \<and> qualifies df_sent t r"
      by (auto simp: qualifying_def)
  qed
qed

text \<open>
  The theorem on the example table with \<open>n = 1\<close>: two rows qualify for Atelectasis, one
  is returned.
\<close>

theorem sentence_prompts_witness:
  "map_sum id fst (generate_class_prompts sentence_table None (Some 1) (\<lambda>i. 0)) =
     Inr [(''Atelectasis'', [''mild atelectasis at the base'']), (''Edema'', [''pulmonary edema''])]
   \<and> length (qualifying sentence_table ''Atelectasis'') = 2
   \<and> sentences_drawn (Some 1) (qualifying sentence_table ''Atelectasis'')
       [''mild atelectasis at the base'']
   \<and> (\<exists>r \<in> set (sentences sentence_table).
        Reports r = Some ''mild atelectasis at the base'' \<and>
        qualifies sentence_table ''Atelectasis'' r)"
proof -
  let ?gen = "generate_class_prompts sentence_table None (Some 1) (\<lambda>i. 0)"
  let ?ps = "[''mild atelectasis at the base'']"
  have h: "(\<forall>r \<in> set (sentences sentence_table). Reports r \<noteq> None) \<and>
    set (target_tasks sentence_table None) \<subseteq> insert ''Reports'' (set (tasks sentence_table)) \<and>
    (\<forall>m. Some (1::int) = Some m \<longrightarrow> 0 \<le> m)"
    by (simp add: sentence_table_def target_tasks_def)
  have v: "map_sum id fst ?gen =
     Inr [(''Atelectasis'', ?ps), (''Edema'', [''pulmonary edema''])]"
    by code_simp
  have q: "length (qualifying sentence_table ''Atelectasis'') = 2"
    by code_simp
  note inst = sentence_prompts_qualify[of sentence_table None "Some 1" "\<lambda>i. 0"]
  from inst[THEN conjunct1, THEN mp, OF h] obtain P g' where r: "?gen = Inr (P, g')"
    by (elim exE conjE)
  from v have P: "P = [(''Atelectasis'', ?ps), (''Edema'', [''pulmonary edema''])]"
    unfolding r by simp
  have m: "?gen = Inr (P, g') \<and> (''Atelectasis'', ?ps) \<in> set P"
    unfolding P using r[unfolded P] by simp
  from inst[THEN conjunct2, THEN spec, THEN spec, THEN spec, THEN spec, THEN mp, OF m]
  have d: "sentences_drawn (Some 1) (qualifying sentence_table ''Atelectasis'') ?ps"
    and e: "\<forall>p \<in> set ?ps. \<exists>r \<in> set (sentences sentence_table).
        Reports r = Some p \<and> qualifies sentence_table ''Atelectasis'' r"
    by (rule conjunct1, rule conjunct2)
  from e have "\<exists>r \<in> set (sentences sentence_table).
        Reports r = Some ''mild atelectasis at the base'' \<and>
        qualifies sentence_table ''Atelectasis'' r"
    by (rule bspec) simp
  with v q d show ?thesis by (intro conjI)
qed

text \<open>
  Claim C4 as it is worded asks that every other task label of a returned row be 0. The
  first row of the example table has no label for Edema; its sentence is returned for
  Atelectasis.
\<close>

theorem sentence_prompts_missing_label_counterexample:
  "map_sum id fst (generate_class_prompts sentence_table (Some (TaskName ''Atelectasis'')) None
       (\<lambda>i. 0)) =
     Inr [(''Atelectasis'', [''mild atelectasis at the base'', ''left basal atelectasis''])]
   \<and> map (\<lambda>r. labels r ''Edema'')
        (filter (\<lambda>r. Reports r = Some ''mild atelectasis at the base'') (sentences sentence_table))
      = [None]"
  by code_simp


text \<open>
  Claim C6, as amended. A requested task name that is not among the columns of the table
  (neither a label column nor the text column \<^verbatim>\<open>Reports\<close>) makes
  \<^verbatim>\<open>generate_class_prompts\<close> raise, whatever else is requested with it; the exception is
  \<^verbatim>\<open>KeyError\<close> unless a missing sentence or a negative \<open>n\<close> has raised before the
  unknown name is reached.
\<close>

theorem unknown_task_raises:
  assumes "t \<in> set (target_tasks df_sent task)" and "t \<noteq> ''Reports''"
    and "t \<notin> set (tasks df_sent)"
  shows "isl (generate_class_prompts df_sent task n g)
     \<and> ((\<forall>r \<in> set (sentences df_sent). Reports r \<noteq> None) \<and> (\<forall>m. n = Some m \<longrightarrow> 0 \<le> m)
         \<longrightarrow> generate_class_prompts df_sent task n g = Inl KeyError)"
proof (intro conjI impI)
  show "isl (generate_class_prompts df_sent task n g)"
  proof (cases "long_reports (sentences df_sent)")
    case (Inl e)
    then show ?thesis by (simp add: generate_class_prompts_def)
  next
    case (Inr df)
    then show ?thesis using task_loop_unknown[OF assms, of df n "[]" g]
      by (simp add: generate_class_prompts_def)
  qed
next
  assume a: "(\<forall>r \<in> set (sentences df_sent). Reports r \<noteq> None) \<and> (\<forall>m. n = Some m \<longrightarrow> 0 \<le> m)"
  then obtain df where lr: "long_reports (sentences df_sent) = Inr df"
    by (auto simp: long_reports_def)
  from a have "\<forall>m. n = Some m \<longrightarrow> 0 \<le> m" by simp
  from task_loop_KeyError[OF assms this, of df "[]" g] lr
  show "generate_class_prompts df_sent task n g = Inl KeyError"
    by (simp add: generate_class_prompts_def)
qed


text \<open>The theorem on the example table, with a known task requested before the unknown one.\<close>

theorem unknown_task_witness:
  "''Cardiomegaly'' \<in> set (target_tasks sentence_table (Some (TaskList [''Edema'', ''Cardiomegaly''])))
   \<and> ''Cardiomegaly'' \<notin> set (tasks sentence_table)
   \<and> generate_class_prompts sentence_table (Some (TaskList [''Edema'', ''Cardiomegaly'']))
        (Some 100) (\<lambda>i. 0) = Inl KeyError"
proof -
  have h1: "''Cardiomegaly'' \<in>
      set (target_tasks sentence_table (Some (TaskList [''Edema'', ''Cardiomegaly''])))"
    by (simp add: target_tasks_def)
  have h2: "''Cardiomegaly'' \<noteq> ''Reports''" by simp
  have h3: "''Cardiomegaly'' \<notin> set (tasks sentence_table)" by (simp add: sentence_table_def)
  have h4: "(\<forall>r \<in> set (sentences sentence_table). Reports r \<noteq> None) \<and>
      (\<forall>m. Some (100::int) = Some m \<longrightarrow> 0 \<le> m)"
    by (simp add: sentence_table_def)
  from unknown_task_raises[OF h1 h2 h3, of "Some 100" "\<lambda>i. 0"] h1 h3 h4 show ?thesis by blast
qed


text \<open>
  Claim C6 as it is worded covers every name that is no label column. The name of the
  text column is none, and requesting it raises nothing: the comparison of the sentences
  with 1 selects no row, and the result holds an empty prompt list under that name.
\<close>

theorem text_column_as_task_counterexample:
  "map_sum id fst (generate_class_prompts sentence_table (Some (TaskName ''Reports'')) (Some 100)
       (\<lambda>i. 0)) = Inr [(''Reports'', [])]
   \<and> ''Reports'' \<notin> set (tasks sentence_table)"
  by code_simp

subsection \<open>Tensor entries and normalisation\<close>

lemma signed_inf_0 [simp]: "signed_inf 0 = NaN"
  by (simp add: signed_inf_def)

lemma ssum_Num: "ssum (map Num xs) = Num (sum_list xs)"
  by (induction xs) (simp_all add: ssum_def)

lemma row_mean_Num:
  "xs \<noteq> [] \<Longrightarrow> row_mean (map Num xs) = Num (sum_list xs / real (length xs))"
  by (simp add: row_mean_def ssum_Num)

lemma row_max_Num: "xs \<noteq> [] \<Longrightarrow> row_max (map Num xs) = Num (Max (set xs))"
proof (induction xs rule: induct_list012)
  case 1
  then show ?case by simp
next
  case (2 x)
  then show ?case by simp
next
  case (3 x y zs)
  then have ih: "row_max (map Num (y # zs)) = Num (Max (set (y # zs)))" by simp
  have "Max (insert x (set (y # zs))) = max x (Max (set (y # zs)))"
    by (rule Max_insert) simp_all
  then have m: "Max (set (x # y # zs)) = max x (Max (set (y # zs)))" by simp
  have "row_max (map Num (x # y # zs)) = smax (Num x) (row_max (map Num (y # zs)))" by simp
  also have "\<dots> = Num (max x (Max (set (y # zs))))" unfolding ih by simp
  finally show ?case unfolding m .
qed

lemma sum_squares_nonneg: "0 \<le> sum_list (map (\<lambda>a. a * a) (x :: real list))"
  by (induction x) simp_all

lemma sum_squares_zero_iff:
  "sum_list (map (\<lambda>a. a * a) (x :: real list)) = 0 \<longleftrightarrow> (\<forall>a \<in> set x. a = 0)"
proof (induction x)
  case Nil
  then show ?case by simp
next
  case (Cons a x)
  have "0 \<le> a * a" by simp
  with sum_squares_nonneg[of x] Cons show ?case
    by (auto simp: add_nonneg_eq_0_iff)
qed

lemma sum_list_div_const:
  "sum_list (map (\<lambda>a. f a / c) xs) = sum_list (map f xs) / (c :: real)"
  by (induction xs) (simp_all add: add_divide_distrib)

lemma float_bounds: "0 < float_min_normal" "float_min_normal < float_overflow"
  by (simp_all add: float_min_normal_def float_overflow_def)

lemma round_even_0: "round_even 0 = 0"
  by (simp add: round_even_def)

lemma fl32_0: "fl32 0 = Num 0"
  using float_bounds by (simp add: fl32_def round_even_0)

lemma fl32_exact: "float_min_normal \<le> \<bar>x\<bar> \<Longrightarrow> \<bar>x\<bar> < float_overflow \<Longrightarrow> fl32 x = Num x"
  by (auto simp: fl32_def)




lemma sum_squares_foldl:
  assumes "\<forall>a \<in> set x. a = 0 \<or> float_min_normal \<le> a * a"
    and "s + sum_list (map (\<lambda>a. a * a) x) < float_overflow"
    and "s = 0 \<or> float_min_normal \<le> s"
  shows "foldl (\<lambda>acc a. rnd (sadd acc (fl32 (a * a)))) (Num s) x
       = Num (s + sum_list (map (\<lambda>a. a * a) x))"
  using assms
proof (induction x arbitrary: s)
  case Nil
  then show ?case by simp
next
  case (Cons a x)
  have nn: "0 \<le> sum_list (map (\<lambda>a. a * a) x)" by (rule sum_squares_nonneg)
  have s0: "0 \<le> s" using Cons.prems(3) float_bounds by auto
  have a0: "0 \<le> a * a" by simp
  have lt: "s + a * a < float_overflow" using Cons.prems(2) nn by simp
  then have lta: "a * a < float_overflow" using s0 by simp
  have sq: "fl32 (a * a) = Num (a * a)"
  proof (cases "a = 0")
    case True
    then show ?thesis by (simp add: fl32_0)
  next
    case False
    with Cons.prems(1) have "float_min_normal \<le> a * a" by simp
    then show ?thesis using lta a0 by (intro fl32_exact) simp_all
  qed
  have ok: "s + a * a = 0 \<or> float_min_normal \<le> s + a * a"
  proof (cases "a = 0")
    case True
    then show ?thesis using Cons.prems(3) by simp
  next
    case False
    with Cons.prems(1) have "float_min_normal \<le> a * a" by simp
    then show ?thesis using s0 by simp
  qed
  have step: "rnd (sadd (Num s) (fl32 (a * a))) = Num (s + a * a)"
  proof (cases "s + a * a = 0")
    case True
    then show ?thesis by (simp add: sq fl32_0)
  next
    case False
    with ok have "float_min_normal \<le> s + a * a" by simp
    then have "fl32 (s + a * a) = Num (s + a * a)"
      using lt s0 a0 by (intro fl32_exact) simp_all
    then show ?thesis by (simp add: sq)
  qed
  have "foldl (\<lambda>acc a. rnd (sadd acc (fl32 (a * a)))) (Num (s + a * a)) x
       = Num (s + a * a + sum_list (map (\<lambda>a. a * a) x))"
    using Cons.prems(1,2) ok by (intro Cons.IH) (simp_all add: add.assoc)
  then show ?case by (simp add: step add.assoc)
qed

lemma sum_squares_in_range:
  assumes "in_float_range x"
  shows "sum_squares x = Num (sum_list (map (\<lambda>a. a * a) x))"
  using sum_squares_foldl[of x 0] assms by (simp add: sum_squares_def in_float_range_def)

lemma sum_squares_zero:
  assumes "\<forall>a \<in> set x. a = 0"
  shows "sum_squares x = Num 0"
proof -
  have "foldl (\<lambda>acc a. rnd (sadd acc (fl32 (a * a)))) (Num 0) x = Num 0"
    using assms by (induction x) (simp_all add: fl32_0)
  then show ?thesis by (simp add: sum_squares_def)
qed

lemma square_le_sum_squares:
  "a \<in> set x \<Longrightarrow> a * a \<le> sum_list (map (\<lambda>a. a * a) (x :: real list))"
proof (induction x)
  case Nil
  then show ?case by simp
next
  case (Cons b x)
  have b: "0 \<le> b * b" by simp
  show ?case
  proof (cases "a = b")
    case True
    then show ?thesis using sum_squares_nonneg[of x] by simp
  next
    case False
    with Cons.prems have "a \<in> set x" by simp
    from Cons.IH[OF this] have "a * a \<le> sum_list (map (\<lambda>a. a * a) x)" .
    moreover have "sum_list (map (\<lambda>a. a * a) (b # x)) = b * b + sum_list (map (\<lambda>a. a * a) x)"
      by simp
    ultimately show ?thesis using b by linarith
  qed
qed

lemma normalize_zero:
  assumes "\<forall>a \<in> set x. a = 0"
  shows "l2_normalize x = replicate (length x) NaN"
proof -
  have "l2_norm x = Num 0" by (simp add: l2_norm_def sum_squares_zero[OF assms])
  then have "l2_normalize x = map (\<lambda>a. NaN) x"
    using assms by (simp add: l2_normalize_def signed_inf_def)
  then show ?thesis by (simp add: map_replicate_const)
qed

lemma rnd_quotient:
  assumes n0: "0 < n" and le: "\<bar>a\<bar> \<le> n" and lo: "a = 0 \<or> float_min_normal \<le> \<bar>a\<bar> / n"
  shows "rnd (sdiv (Num a) (Num n)) = Num (a / n)"
proof (cases "a = 0")
  case True
  with n0 show ?thesis by (simp add: fl32_0)
next
  case False
  have eq: "\<bar>a / n\<bar> = \<bar>a\<bar> / n" using n0 by (simp add: abs_divide)
  from le n0 have "\<bar>a\<bar> / n \<le> 1" by (simp add: divide_le_eq)
  moreover have "1 < float_overflow" by (simp add: float_overflow_def)
  ultimately have hi: "\<bar>a / n\<bar> < float_overflow" unfolding eq by linarith
  from lo False have "float_min_normal \<le> \<bar>a / n\<bar>" unfolding eq by simp
  then have "fl32 (a / n) = Num (a / n)" using hi by (rule fl32_exact)
  moreover have "sdiv (Num a) (Num n) = Num (a / n)" using n0 by simp
  ultimately show ?thesis by simp
qed

lemma abs_le_l2:
  assumes "a \<in> set x"
  shows "\<bar>a\<bar> \<le> sqrt (sum_list (map (\<lambda>a. a * a) (x :: real list)))"
proof -
  have "a * a \<le> sum_list (map (\<lambda>a. a * a) x)" using assms by (rule square_le_sum_squares)
  then have "sqrt (a * a) \<le> sqrt (sum_list (map (\<lambda>a. a * a) x))" by (rule real_sqrt_le_mono)
  then show ?thesis by simp
qed

lemma unit_norm:
  assumes "0 < s" and "s = sum_list (map (\<lambda>a. a * a) (x :: real list))"
  shows "sum_list (map (\<lambda>a. a / sqrt s * (a / sqrt s)) x) = 1"
proof -
  define n where "n = sqrt s"
  have nn: "n * n = s" using assms(1) by (simp add: n_def)
  have "sum_list (map (\<lambda>a. a / n * (a / n)) x) = sum_list (map (\<lambda>a. a * a / (n * n)) x)"
    by simp
  also have "\<dots> = sum_list (map (\<lambda>a. a * a) x) / (n * n)"
    by (rule sum_list_div_const)
  also have "\<dots> = 1" using assms by (simp only: nn) simp
  finally show ?thesis by (simp only: n_def)
qed

lemma normalize_in_range:
  assumes r: "in_float_range x" and nz: "\<exists>a \<in> set x. a \<noteq> 0"
  shows "l2_normalize x = map (\<lambda>a. Num (a / sqrt (sum_list (map (\<lambda>a. a * a) x)))) x"
    and "row_norm (l2_normalize x) = Num 1"
proof -
  define s where "s = sum_list (map (\<lambda>a. a * a) x)"
  define n where "n = sqrt s"
  have s0: "0 \<le> s" unfolding s_def by (rule sum_squares_nonneg)
  from nz have "s \<noteq> 0" unfolding s_def by (simp add: sum_squares_zero_iff)
  with s0 have sp: "0 < s" by simp
  then have n0: "0 < n" by (simp add: n_def)
  have "sum_squares x = Num s" unfolding s_def by (rule sum_squares_in_range[OF r])
  then have norm: "l2_norm x = Num n" using s0 by (simp add: l2_norm_def n_def)
  have q: "rnd (sdiv (Num a) (Num n)) = Num (a / n)" if a: "a \<in> set x" for a
  proof (rule rnd_quotient[OF n0])
    show "\<bar>a\<bar> \<le> n" unfolding n_def s_def using a by (rule abs_le_l2)
    from r a show "a = 0 \<or> float_min_normal \<le> \<bar>a\<bar> / n"
      unfolding n_def s_def in_float_range_def by blast
  qed
  have "l2_normalize x = map (\<lambda>a. rnd (sdiv (Num a) (Num n))) x"
    by (simp only: l2_normalize_def norm)
  also have "\<dots> = map (\<lambda>a. Num (a / n)) x"
    by (rule map_cong[OF refl]) (rule q)
  finally have nzd: "l2_normalize x = map (\<lambda>a. Num (a / n)) x" .
  then show "l2_normalize x = map (\<lambda>a. Num (a / sqrt (sum_list (map (\<lambda>a. a * a) x)))) x"
    by (simp only: n_def s_def)
  have one: "sum_list (map (\<lambda>a. a / n * (a / n)) x) = 1"
    unfolding n_def using sp s_def by (rule unit_norm)
  have "map (\<lambda>a. smul a a) (map (\<lambda>a. Num (a / n)) x) = map Num (map (\<lambda>a. a / n * (a / n)) x)"
    by simp
  then have "ssum (map (\<lambda>a. smul a a) (l2_normalize x)) = Num 1"
    unfolding nzd by (simp only: ssum_Num one)
  then show "row_norm (l2_normalize x) = Num 1"
    by (simp add: row_norm_def)
qed


lemma forward_no_loss:
  "ConVIRT_forward m ids px att False =
     Inr \<lparr>img_embeds = map l2_normalize (image_model m px),
          text_embeds = map l2_normalize (map (text_projection_head m) (text_model m ids att)),
          logits = tensor_div (matmul_t (map l2_normalize (image_model m px))
                     (map l2_normalize (map (text_projection_head m) (text_model m ids att))))
                     (temperature m),
          logits_per_text = tensor_T (tensor_div (matmul_t (map l2_normalize (image_model m px))
                     (map l2_normalize (map (text_projection_head m) (text_model m ids att))))
                     (temperature m)),
          loss_value = None\<rparr>"
  by (simp add: ConVIRT_forward_def Let_def)


lemma logits_shape:
  "ncols (tensor_div (matmul_t a b) c) = length b"
  "length (rows (tensor_div (matmul_t a b) c)) = length a"
  by (simp_all add: tensor_div_def matmul_t_def)


lemma logits_wf: "wf_tensor (tensor_div (matmul_t a b) c)"
  by (auto simp: wf_tensor_def tensor_div_def matmul_t_def)

lemma map2_upt: "map2 f xs [0..<length xs] = map (\<lambda>i. f (xs ! i) i) [0..<length xs]"
  by (rule nth_equalityI) simp_all

lemma cross_entropy_identity:
  "cross_entropy t [0..<length (rows t)] =
     (if ncols t < length (rows t) then Inl IndexError else Inr (ce_identity (rows t)))"
proof -
  have "(\<exists>c \<in> set [0..<length (rows t)]. ncols t \<le> c) \<longleftrightarrow> ncols t < length (rows t)"
    by auto
  then show ?thesis
    by (simp add: cross_entropy_def ce_identity_def map2_upt del: set_upt)
qed

lemma tensor_T_shape:
  "length (rows (tensor_T t)) = ncols t" "ncols (tensor_T t) = length (rows t)"
  by (simp_all add: tensor_T_def)

lemma sum_exp_pos: "r \<noteq> [] \<Longrightarrow> 0 < sum_list (map exp (r :: real list))"
proof (induction r)
  case Nil
  then show ?case by simp
next
  case (Cons a r)
  have "0 < exp a" by simp
  moreover have "0 \<le> sum_list (map exp r)" by (rule sum_list_nonneg) auto
  ultimately have "0 < exp a + sum_list (map exp r)" by (rule add_pos_nonneg)
  then show ?case by simp
qed

lemma sln_pos: "0 < q \<Longrightarrow> sln (Num q) = Num (ln q)"
  by simp

lemma sum_exp_shift:
  "sum_list (map (\<lambda>a. exp (a - m)) r) = sum_list (map exp r) / exp (m :: real)"
  by (induction r) (simp_all add: exp_diff add_divide_distrib)

lemma log_softmax_Num:
  assumes "r \<noteq> []"
  shows "log_softmax (map Num r) = map (\<lambda>a. Num (a - ln (sum_list (map exp r)))) r"
proof -
  define m where "m = Max (set r)"
  define S where "S = sum_list (map exp r)"
  have S: "0 < S" unfolding S_def by (rule sum_exp_pos[OF assms])
  have mx: "row_max (map Num r) = Num m" unfolding m_def by (rule row_max_Num[OF assms])
  have "map (\<lambda>a. sexp (ssub a (Num m))) (map Num r) = map Num (map (\<lambda>a. exp (a - m)) r)"
    by (simp add: ssub_def)
  then have "ssum (map (\<lambda>a. sexp (ssub a (Num m))) (map Num r))
      = Num (sum_list (map (\<lambda>a. exp (a - m)) r))"
    by (simp only: ssum_Num)
  also have "\<dots> = Num (S / exp m)" by (simp only: sum_exp_shift S_def)
  finally have s: "ssum (map (\<lambda>a. sexp (ssub a (Num m))) (map Num r)) = Num (S / exp m)" .
  have pos: "0 < S / exp m" using S by simp
  have l: "sln (Num (S / exp m)) = Num (ln (S / exp m))" by (rule sln_pos[OF pos])
  have "ln (S / exp m) = ln S - m" using S by (simp add: ln_div)
  then have l': "sln (Num (S / exp m)) = Num (ln S - m)" using l by simp
  have "log_softmax (map Num r) = map (\<lambda>a. ssub (ssub a (Num m)) (Num (ln S - m))) (map Num r)"
    by (simp only: log_softmax_def Let_def mx s l')
  also have "\<dots> = map (\<lambda>a. Num (a - ln S)) r"
    by (simp add: ssub_def)
  finally show ?thesis by (simp only: S_def)
qed

lemma ce_identity_real:
  assumes ne: "A \<noteq> []" and sq: "\<forall>r \<in> set A. length r = length A"
  shows "ce_identity (map (map Num) A) = Num (spec_cross_entropy A)"
proof -
  let ?f = "\<lambda>i. ln (sum_list (map exp (A ! i))) - A ! i ! i"
  have "sneg (log_softmax (map (map Num) A ! i) ! i) = Num (?f i)"
    if i: "i < length A" for i
  proof -
    from i have mem: "A ! i \<in> set A" by simp
    with sq have len: "length (A ! i) = length A" by simp
    with ne have r: "A ! i \<noteq> []" by auto
    from i have "map (map Num) A ! i = map Num (A ! i)" by simp
    then have "log_softmax (map (map Num) A ! i) ! i
        = map (\<lambda>a. Num (a - ln (sum_list (map exp (A ! i))))) (A ! i) ! i"
      by (simp only: log_softmax_Num[OF r])
    also have "\<dots> = Num (A ! i ! i - ln (sum_list (map exp (A ! i))))"
      using i len by simp
    finally show ?thesis by simp
  qed
  then have "map (\<lambda>i. sneg (log_softmax (map (map Num) A ! i) ! i)) [0..<length A]
      = map Num (map ?f [0..<length A])"
    by simp
  moreover have "ce_identity (map (map Num) A) =
      row_mean (map (\<lambda>i. sneg (log_softmax (map (map Num) A ! i) ! i)) [0..<length A])"
    by (simp only: ce_identity_def length_map)
  ultimately have "ce_identity (map (map Num) A) = row_mean (map Num (map ?f [0..<length A]))"
    by (simp only:)
  also have "\<dots> = Num (sum_list (map ?f [0..<length A]) / real (length (map ?f [0..<length A])))"
    using ne by (intro row_mean_Num) simp
  finally show ?thesis by (simp add: spec_cross_entropy_def)
qed

lemma log_softmax_inf_examples:
  "log_softmax [PInf, Num 1] = [NaN, NaN]"
  "map sneg (log_softmax [NInf, Num 0]) = [PInf, Num 0]"
  by (simp_all add: log_softmax_def ssub_def ssum_def)

lemma tensor_T_real:
  assumes ne: "A \<noteq> []" and sq: "\<forall>r \<in> set A. length r = length A"
    and t: "rows t = map (map Num) A" "ncols t = length A"
  shows "rows (tensor_T t) = map (map Num) (transpose A)"
    and "transpose A \<noteq> []" and "\<forall>r \<in> set (transpose A). length r = length (transpose A)"
proof -
  have tr: "transpose A = map (\<lambda>i. map (\<lambda>j. A ! j ! i) [0..<length A]) [0..<length A]"
    using ne sq by (intro transpose_rectangle) simp_all
  have "map (\<lambda>r. r ! j) (map (map Num) A) = map Num (map (\<lambda>k. A ! k ! j) [0..<length A])"
    if j: "j < length A" for j
  proof (rule nth_equalityI)
    show "length (map (\<lambda>r. r ! j) (map (map Num) A))
        = length (map Num (map (\<lambda>k. A ! k ! j) [0..<length A]))" by simp
  next
    fix k assume "k < length (map (\<lambda>r. r ! j) (map (map Num) A))"
    then have k: "k < length A" by simp
    then have "A ! k \<in> set A" by simp
    with sq j have "j < length (A ! k)" by simp
    with k show "map (\<lambda>r. r ! j) (map (map Num) A) ! k
        = map Num (map (\<lambda>k. A ! k ! j) [0..<length A]) ! k" by simp
  qed
  then show "rows (tensor_T t) = map (map Num) (transpose A)"
    by (simp add: tensor_T_def t tr)
  from ne show "transpose A \<noteq> []" by (simp add: tr)
  show "\<forall>r \<in> set (transpose A). length r = length (transpose A)"
    by (auto simp: tr)
qed

lemma compute_loss_eq:
  "compute_loss m t =
     (if length (rows t) = ncols t
      then Inr (sadd (smul (Num (lamb m)) (ce_identity (rows t)))
                     (smul (Num (1 - lamb m)) (ce_identity (rows (tensor_T t)))))
      else Inl IndexError)"
proof -
  have i: "cross_entropy t [0..<length (rows t)] =
     (if ncols t < length (rows t) then Inl IndexError else Inr (ce_identity (rows t)))"
    by (rule cross_entropy_identity)
  have c: "cross_entropy (tensor_T t) [0..<length (rows (tensor_T t))] =
     (if length (rows t) < ncols t then Inl IndexError else Inr (ce_identity (rows (tensor_T t))))"
    using cross_entropy_identity[of "tensor_T t"] by (simp only: tensor_T_shape)
  show ?thesis unfolding compute_loss_def i c by auto
qed

lemma forward_loss_mismatch:
  assumes "length (image_model m px) \<noteq> length (text_model m ids att)"
  shows "ConVIRT_forward m ids px att True = Inl IndexError"
proof -
  let ?lg = "tensor_div (matmul_t (map l2_normalize (image_model m px))
      (map l2_normalize (map (text_projection_head m) (text_model m ids att)))) (temperature m)"
  from assms have "length (rows ?lg) \<noteq> ncols ?lg" by (simp add: logits_shape)
  then have "compute_loss m ?lg = Inl IndexError" by (simp add: compute_loss_eq)
  then show ?thesis by (simp add: ConVIRT_forward_def Let_def)
qed


subsection \<open>Evaluating the stand-in networks\<close>

lemma sqrt_25: "sqrt 25 = 5"
  by (rule real_sqrt_unique) simp_all

lemma sqrt_4: "sqrt 4 = 2"
  by (rule real_sqrt_unique) simp_all

lemma float_min_normal_le: "float_min_normal \<le> 1 / 2"
  by (simp add: float_min_normal_def)

lemma float_overflow_ge: "100 < float_overflow"
  by (simp add: float_overflow_def)

lemma in_float_range_examples:
  "in_float_range [3, 4]" "in_float_range [0, 2]" "in_float_range [0, 1]" "in_float_range [1, 0]"
  using float_min_normal_le float_overflow_ge
  by (simp_all add: in_float_range_def sqrt_25 sqrt_4)

lemma normalize_examples:
  "l2_normalize [3, 4] = [Num (3/5), Num (4/5)]" "l2_normalize [0, 2] = [Num 0, Num 1]"
  "l2_normalize [0, 1] = [Num 0, Num 1]" "l2_normalize [1, 0] = [Num 1, Num 0]"
  "l2_normalize [0, 0] = [NaN, NaN]"
proof -
  show "l2_normalize [3, 4] = [Num (3/5), Num (4/5)]"
    using normalize_in_range(1)[OF in_float_range_examples(1)] by (simp add: sqrt_25)
  show "l2_normalize [0, 2] = [Num 0, Num 1]"
    using normalize_in_range(1)[OF in_float_range_examples(2)] by (simp add: sqrt_4)
  show "l2_normalize [0, 1] = [Num 0, Num 1]"
    using normalize_in_range(1)[OF in_float_range_examples(3)] by simp
  show "l2_normalize [1, 0] = [Num 1, Num 0]"
    using normalize_in_range(1)[OF in_float_range_examples(4)] by simp
  show "l2_normalize [0, 0] = [NaN, NaN]"
    using normalize_zero[of "[0, 0]"] by simp
qed






lemma toy_forward_square:
  "ConVIRT_forward (ConVIRT_init toy_resnet toy_bert toy_head) [[1], [2]] [0, 1]
      [[1], [1]] False =
   Inr \<lparr>img_embeds = [[Num (3/5), Num (4/5)], [Num 0, Num 1]],
        text_embeds = [[Num 1, Num 0], [Num 0, Num 1]],
        logits = \<lparr>ncols = 2, rows = [[Num 6, Num 8], [Num 0, Num 10]]\<rparr>,
        logits_per_text = \<lparr>ncols = 2, rows = [[Num 6, Num 0], [Num 8, Num 10]]\<rparr>,
        loss_value = None\<rparr>"
  by (simp add: forward_no_loss ConVIRT_init_def toy_resnet_def toy_bert_def toy_head_def
      normalize_examples matmul_t_def tensor_div_def tensor_T_def dot_def ssum_def upt_rec)

lemma ce_square_example:
  "spec_cross_entropy [[6, 8], [0, 10]]
     = (ln (exp 6 + exp 8) - 6 + (ln (1 + exp 10) - 10)) / 2"
  "spec_cross_entropy (transpose [[6, 8], [0, 10]])
     = (ln (exp 6 + 1) - 6 + (ln (exp 8 + exp 10) - 10)) / 2"
  by (simp_all add: spec_cross_entropy_def upt_rec)

lemma ce_square_example_less:
  "(ln (exp 6 + 1) - 6 + (ln (exp 8 + exp 10) - 10)) / 2
     < (ln (exp 6 + exp 8) - 6 + (ln (1 + exp 10) - 10)) / (2 :: real)"
proof -
  have e2: "(3 :: real) \<le> exp 2" using exp_ge_add_one_self[of "2 :: real"] by simp
  have e8: "exp (2 :: real) < exp 8" by simp
  have p8: "(0 :: real) < exp 8" by simp
  have "exp (10 :: real) = exp 2 * exp 8" by (simp add: exp_add[symmetric])
  then have "3 * exp (8 :: real) \<le> exp 10" using e2 p8 by simp
  then have k: "exp (8 :: real) + exp 2 < 1 + exp 10" using e8 p8 by linarith
  have a: "exp (8 :: real) + exp 10 = exp 2 * (exp 6 + exp 8)"
    by (simp add: distrib_left exp_add[symmetric])
  have b: "exp (8 :: real) + exp 2 = exp 2 * (exp 6 + 1)"
    by (simp add: distrib_left exp_add[symmetric])
  have pos: "(0 :: real) < exp 6 + exp 8" "(0 :: real) < exp 6 + 1"
    by (simp_all add: add_pos_pos)
  have la: "ln (exp 8 + exp 10) = 2 + ln (exp 6 + exp (8 :: real))"
    unfolding a using pos(1) by (simp add: ln_mult)
  have "ln (exp 2 * (exp 6 + (1 :: real))) < ln (1 + exp 10)"
    using k unfolding b by (intro ln_less_cancel_iff[THEN iffD2]) (simp_all add: add_pos_pos)
  then have lb: "2 + ln (exp 6 + (1 :: real)) < ln (1 + exp 10)"
    using pos(2) by (simp add: ln_mult)
  show ?thesis using la lb by simp
qed

lemma ce_square_example_pos:
  "0 < (ln (exp 6 + 1) - 6 + (ln (exp 8 + exp 10) - 10)) / (2 :: real)"
proof -
  have "ln (exp (6 :: real)) < ln (exp 6 + 1)"
    by (intro ln_less_cancel_iff[THEN iffD2]) (simp_all add: add_pos_pos)
  then have a: "6 < ln (exp (6 :: real) + 1)" by simp
  have "ln (exp (10 :: real)) < ln (exp 8 + exp 10)"
    by (intro ln_less_cancel_iff[THEN iffD2]) (simp_all add: add_pos_pos)
  then have b: "10 < ln (exp (8 :: real) + exp 10)" by simp
  from a b show ?thesis by simp
qed



lemma toy_batch_preserving: "batch_preserving toy_model"
  by (simp add: batch_preserving_def toy_model_def ConVIRT_init_def toy_resnet_def toy_bert_def)


subsection \<open>The dual encoder\<close>






lemma forward_loss_real:
  assumes f: "ConVIRT_forward (ConVIRT_init resnet bert head) ids px att False = Inr outs"
    and ne: "A \<noteq> []" and eq: "length (resnet px) = length (bert ids att)"
    and A: "rows (logits outs) = map (map Num) A"
  shows "rows (logits_per_text outs) = map (map Num) (transpose A)"
    and "ce_identity (rows (logits outs)) = Num (spec_cross_entropy A)"
    and "ce_identity (rows (logits_per_text outs)) = Num (spec_cross_entropy (transpose A))"
proof -
  define m where "m = ConVIRT_init resnet bert head"
  define lg where "lg = tensor_div (matmul_t (map l2_normalize (image_model m px))
      (map l2_normalize (map (text_projection_head m) (text_model m ids att)))) (temperature m)"
  have fm: "image_model m = resnet" "text_model m = bert"
    by (simp_all add: m_def ConVIRT_init_def)
  from f have lo: "logits outs = lg" "logits_per_text outs = tensor_T lg"
    unfolding m_def[symmetric] by (auto simp: forward_no_loss lg_def)
  have sh: "length (rows lg) = length (resnet px)" "ncols lg = length (bert ids att)"
    unfolding lg_def by (simp_all add: logits_shape fm)
  have wf: "wf_tensor lg" unfolding lg_def by (rule logits_wf)
  from A have rl: "rows lg = map (map Num) A" by (simp add: lo)
  then have "length (rows lg) = length A" by simp
  with sh eq have nc: "ncols lg = length A" by simp
  have sq: "\<forall>r \<in> set A. length r = length A"
  proof
    fix r assume "r \<in> set A"
    then have "map Num r \<in> set (rows lg)" by (simp add: rl)
    with wf have "length (map Num r) = ncols lg" unfolding wf_tensor_def by (rule bspec)
    then show "length r = length A" by (simp add: nc)
  qed
  note t = tensor_T_real[OF ne sq rl nc]
  show "rows (logits_per_text outs) = map (map Num) (transpose A)"
    by (simp only: lo t(1))
  show "ce_identity (rows (logits outs)) = Num (spec_cross_entropy A)"
    unfolding A by (rule ce_identity_real[OF ne sq])
  show "ce_identity (rows (logits_per_text outs)) = Num (spec_cross_entropy (transpose A))"
    unfolding lo t(1) by (rule ce_identity_real[OF t(2) t(3)])
qed

lemma forward_loss_eq:
  assumes "ConVIRT_forward (ConVIRT_init resnet bert head) ids px att False = Inr outs"
  shows "ConVIRT_forward (ConVIRT_init resnet bert head) ids px att True =
     (if length (resnet px) = length (bert ids att)
      then Inr (outs\<lparr>loss_value :=
             Some (sadd (smul (Num 0.75) (ce_identity (rows (logits outs))))
                        (smul (Num 0.25) (ce_identity (rows (logits_per_text outs)))))\<rparr>)
      else Inl IndexError)"
proof -
  define m where "m = ConVIRT_init resnet bert head"
  define lg where "lg = tensor_div (matmul_t (map l2_normalize (image_model m px))
      (map l2_normalize (map (text_projection_head m) (text_model m ids att)))) (temperature m)"
  have f: "image_model m = resnet" "text_model m = bert" "lamb m = 0.75" "1 - lamb m = 0.25"
    by (simp_all add: m_def ConVIRT_init_def)
  from assms have lo: "logits outs = lg" "logits_per_text outs = tensor_T lg"
    unfolding m_def[symmetric] by (auto simp: forward_no_loss lg_def)
  have sh: "length (rows lg) = length (resnet px)" "ncols lg = length (bert ids att)"
    unfolding lg_def by (simp_all add: logits_shape f)
  have "ConVIRT_forward m ids px att True =
      bind_r (compute_loss m lg) (\<lambda>l. Inr (outs\<lparr>loss_value := Some l\<rparr>))"
    using assms unfolding m_def[symmetric]
    by (auto simp: ConVIRT_forward_def Let_def lg_def)
  also have "compute_loss m lg =
     (if length (resnet px) = length (bert ids att)
      then Inr (sadd (smul (Num 0.75) (ce_identity (rows lg)))
                     (smul (Num 0.25) (ce_identity (rows (tensor_T lg)))))
      else Inl IndexError)"
    by (simp add: compute_loss_eq sh f)
  finally show ?thesis unfolding m_def lo by (simp split: if_splits)
qed

text \<open>
  Claim C8. With the loss enabled, the forward pass returns exactly when the logits
  matrix is square, and its loss is then 0.75 times the cross entropy of the logits
  against the identity assignment plus 0.25 times the cross entropy of the transposed
  logits (\<^verbatim>\<open>logits_per_text\<close>) against the identity assignment; all other outputs are
  those of the pass without loss. When the logits are finite numbers, the matrix \<open>A\<close>,
  and the batch is not empty, \<^verbatim>\<open>logits_per_text\<close> is the transpose of \<open>A\<close>, the two
  cross entropies are those of real analysis, the mean over \<open>i\<close> of
  \<open>ln (\<Sum>j. exp (A i j)) - A i i\<close> for \<open>A\<close> and for its transpose, and the loss is
  \<open>0.75 * CE(A) + 0.25 * CE(transpose A)\<close>.
\<close>

theorem dual_encoder_loss:
  assumes "ConVIRT_forward (ConVIRT_init resnet bert head) ids px att False = Inr outs"
  shows "ConVIRT_forward (ConVIRT_init resnet bert head) ids px att True =
     (if length (resnet px) = length (bert ids att)
      then Inr (outs\<lparr>loss_value :=
             Some (sadd (smul (Num 0.75) (ce_identity (rows (logits outs))))
                        (smul (Num 0.25) (ce_identity (rows (logits_per_text outs)))))\<rparr>)
      else Inl IndexError)
   \<and> (\<forall>A. A \<noteq> [] \<and> length (resnet px) = length (bert ids att)
          \<and> rows (logits outs) = map (map Num) A \<longrightarrow>
        rows (logits_per_text outs) = map (map Num) (transpose A)
        \<and> ce_identity (rows (logits outs)) = Num (spec_cross_entropy A)
        \<and> ce_identity (rows (logits_per_text outs)) = Num (spec_cross_entropy (transpose A))
        \<and> ConVIRT_forward (ConVIRT_init resnet bert head) ids px att True =
            Inr (outs\<lparr>loss_value :=
              Some (Num (0.75 * spec_cross_entropy A
                         + 0.25 * spec_cross_entropy (transpose A)))\<rparr>))"
proof (intro conjI allI impI)
  show g: "ConVIRT_forward (ConVIRT_init resnet bert head) ids px att True =
     (if length (resnet px) = length (bert ids att)
      then Inr (outs\<lparr>loss_value :=
             Some (sadd (smul (Num 0.75) (ce_identity (rows (logits outs))))
                        (smul (Num 0.25) (ce_identity (rows (logits_per_text outs)))))\<rparr>)
      else Inl IndexError)"
    by (rule forward_loss_eq[OF assms])
  fix A
  assume h: "A \<noteq> [] \<and> length (resnet px) = length (bert ids att)
          \<and> rows (logits outs) = map (map Num) A"
  then have ne: "A \<noteq> []" and eq: "length (resnet px) = length (bert ids att)"
    and A: "rows (logits outs) = map (map Num) A"
    by simp_all
  note r = forward_loss_real[OF assms ne eq A]
  show "rows (logits_per_text outs) = map (map Num) (transpose A)" by (rule r(1))
  show "ce_identity (rows (logits outs)) = Num (spec_cross_entropy A)" by (rule r(2))
  show "ce_identity (rows (logits_per_text outs)) = Num (spec_cross_entropy (transpose A))"
    by (rule r(3))
  show "ConVIRT_forward (ConVIRT_init resnet bert head) ids px att True =
            Inr (outs\<lparr>loss_value :=
              Some (Num (0.75 * spec_cross_entropy A
                         + 0.25 * spec_cross_entropy (transpose A)))\<rparr>)"
    unfolding g r(2) r(3) using eq by simp
qed

text \<open>
  The theorem on two images and two texts of the stand-in networks. The logits are
  \<open>((6, 8), (0, 10))\<close>, not symmetric: the image-to-text cross entropy is larger than the
  text-to-image one, both are positive, and the loss weighs the first with 0.75 and the
  second with 0.25.
\<close>

theorem dual_encoder_loss_witness:
  "ConVIRT_forward (ConVIRT_init toy_resnet toy_bert toy_head) [[1], [2]] [0, 1]
      [[1], [1]] True =
   Inr \<lparr>img_embeds = [[Num (3/5), Num (4/5)], [Num 0, Num 1]],
        text_embeds = [[Num 1, Num 0], [Num 0, Num 1]],
        logits = \<lparr>ncols = 2, rows = [[Num 6, Num 8], [Num 0, Num 10]]\<rparr>,
        logits_per_text = \<lparr>ncols = 2, rows = [[Num 6, Num 0], [Num 8, Num 10]]\<rparr>,
        loss_value = Some (Num
          (0.75 * ((ln (exp 6 + exp 8) - 6 + (ln (1 + exp 10) - 10)) / 2)
           + 0.25 * ((ln (exp 6 + 1) - 6 + (ln (exp 8 + exp 10) - 10)) / 2)))\<rparr>
   \<and> spec_cross_entropy [[6, 8], [0, 10]]
       = (ln (exp 6 + exp 8) - 6 + (ln (1 + exp 10) - 10)) / 2
   \<and> transpose [[6, 8], [0, 10 :: real]] = [[6, 0], [8, 10]]
   \<and> spec_cross_entropy [[6, 0], [8, 10]]
       = (ln (exp 6 + 1) - 6 + (ln (exp 8 + exp 10) - 10)) / 2
   \<and> spec_cross_entropy [[6, 0], [8, 10]] < spec_cross_entropy [[6, 8], [0, 10]]
   \<and> 0 < spec_cross_entropy [[6, 0], [8, 10]]"
proof -
  let ?A = "[[6, 8], [0, 10 :: real]]"
  let ?outs = "\<lparr>img_embeds = [[Num (3/5), Num (4/5)], [Num 0, Num 1]],
        text_embeds = [[Num 1, Num 0], [Num 0, Num 1]],
        logits = \<lparr>ncols = 2, rows = [[Num 6, Num 8], [Num 0, Num 10]]\<rparr>,
        logits_per_text = \<lparr>ncols = 2, rows = [[Num 6, Num 0], [Num 8, Num 10]]\<rparr>,
        loss_value = None\<rparr>"
  have tr: "transpose ?A = [[6, 0], [8, 10]]" by simp
  have h: "?A \<noteq> [] \<and> length (toy_resnet [0, 1]) = length (toy_bert [[1], [2]] [[1], [1]])
      \<and> rows (logits ?outs) = map (map Num) ?A"
    by (simp add: toy_resnet_def toy_bert_def)
  note inst = dual_encoder_loss[OF toy_forward_square, THEN conjunct2, THEN spec, of ?A,
      THEN mp, OF h]
  from inst have "ConVIRT_forward (ConVIRT_init toy_resnet toy_bert toy_head) [[1], [2]] [0, 1]
      [[1], [1]] True =
      Inr (?outs\<lparr>loss_value := Some (Num (0.75 * spec_cross_entropy ?A
                         + 0.25 * spec_cross_entropy (transpose ?A)))\<rparr>)"
    by (elim conjE)
  then have run: "ConVIRT_forward (ConVIRT_init toy_resnet toy_bert toy_head) [[1], [2]] [0, 1]
      [[1], [1]] True =
   Inr \<lparr>img_embeds = [[Num (3/5), Num (4/5)], [Num 0, Num 1]],
        text_embeds = [[Num 1, Num 0], [Num 0, Num 1]],
        logits = \<lparr>ncols = 2, rows = [[Num 6, Num 8], [Num 0, Num 10]]\<rparr>,
        logits_per_text = \<lparr>ncols = 2, rows = [[Num 6, Num 0], [Num 8, Num 10]]\<rparr>,
        loss_value = Some (Num
          (0.75 * ((ln (exp 6 + exp 8) - 6 + (ln (1 + exp 10) - 10)) / 2)
           + 0.25 * ((ln (exp 6 + 1) - 6 + (ln (exp 8 + exp 10) - 10)) / 2)))\<rparr>"
    by (simp only: ce_square_example) simp
  have c2: "spec_cross_entropy [[6, 0], [8, 10]]
       = (ln (exp 6 + 1) - 6 + (ln (exp 8 + exp 10) - 10)) / 2"
    using ce_square_example(2) by (simp only: tr)
  have lt: "spec_cross_entropy [[6, 0], [8, 10]] < spec_cross_entropy [[6, 8], [0, 10]]"
    unfolding c2 ce_square_example(1) by (rule ce_square_example_less)
  have pos: "0 < spec_cross_entropy [[6, 0], [8, 10]]"
    unfolding c2 by (rule ce_square_example_pos)
  from run ce_square_example(1) tr c2 lt pos show ?thesis by (intro conjI)
qed


text \<open>
  Claim C9. When the networks return one row per batch element, an image batch and a text
  batch of different sizes make the forward pass with the loss enabled raise: with more
  images than texts a target of the image-to-text cross entropy is out of bounds, with
  more texts than images a target of the text-to-image cross entropy is.
\<close>

theorem batch_mismatch_raises:
  assumes "batch_preserving m" and "length px \<noteq> length ids"
  shows "ConVIRT_forward m ids px att True = Inl IndexError"
proof -
  from assms(1) have "length (image_model m px) = length px"
    and "length (text_model m ids att) = length ids"
    by (simp_all add: batch_preserving_def)
  with assms(2) show ?thesis by (simp add: forward_loss_mismatch)
qed


text \<open>The theorem with two images and three texts, and with three images and one text.\<close>

theorem batch_mismatch_witness:
  "batch_preserving toy_model
   \<and> length [0, 1 :: nat] \<noteq> length [[1], [2], [3 :: nat]]
   \<and> ConVIRT_forward toy_model [[1], [2], [3]] [0, 1] [[1], [1], [1]] True = Inl IndexError
   \<and> length [0, 1, 2 :: nat] \<noteq> length [[1 :: nat]]
   \<and> ConVIRT_forward toy_model [[1]] [0, 1, 2] [[1]] True = Inl IndexError"
proof -
  have h1: "length [0, 1 :: nat] \<noteq> length [[1], [2], [3 :: nat]]" by simp
  have h2: "length [0, 1, 2 :: nat] \<noteq> length [[1 :: nat]]" by simp
  from batch_mismatch_raises[OF toy_batch_preserving h1, of "[[1], [1], [1]]"]
    batch_mismatch_raises[OF toy_batch_preserving h2, of "[[1]]"]
    toy_batch_preserving h1 h2
  show ?thesis by (intro conjI)
qed

subsection \<open>The classifier head\<close>

lemma forward_logits:
  "\<exists>out. ConVIRT_forward m (input_ids e) px (attention_mask e) False = Inr out \<and>
     logits out = class_logits m px e \<and> loss_value out = None"
  by (simp add: forward_no_loss class_logits_def)

lemma class_logits_shape:
  "length (rows (class_logits m px e)) = length (image_model m px)"
  "ncols (class_logits m px e) = length (text_model m (input_ids e) (attention_mask e))"
  "wf_tensor (class_logits m px e)"
  by (simp_all add: class_logits_def logits_shape logits_wf)

lemma torch_mean_wf: "wf_tensor t \<Longrightarrow> torch_mean t = map row_mean (rows t)"
  by (simp add: torch_mean_def row_mean_def wf_tensor_def)

lemma class_similarity_ConVIRT:
  "class_similarity \<lparr>model = ConVIRT_forward m, ensemble = ens\<rparr> px e =
     (if \<not> ens \<and> ncols (class_logits m px e) = 0 then Inl IndexError
      else Inr (reduce_rows ens (class_logits m px e)))"
proof -
  from forward_logits[of m e px] obtain out where
    "ConVIRT_forward m (input_ids e) px (attention_mask e) False = Inr out"
    "logits out = class_logits m px e" by blast
  then show ?thesis
    by (simp add: class_similarity_def torch_max_def reduce_rows_def
        torch_mean_wf[OF class_logits_shape(3)])
qed

lemma classifier_loop_ok:
  assumes "\<forall>(c, e) \<in> set items. class_similarity clf px e = Inr (f e)"
  shows "classifier_loop clf px items (sims, names) =
           Inr (sims @ map (\<lambda>(c, e). f e) items, names @ map fst items)"
  using assms
proof (induction items arbitrary: sims names)
  case Nil
  then show ?case by simp
next
  case (Cons x items)
  obtain c e where x: "x = (c, e)" by (cases x)
  with Cons.prems have "class_similarity clf px e = Inr (f e)" by simp
  moreover from Cons.prems have "\<forall>(c, e) \<in> set items. class_similarity clf px e = Inr (f e)"
    by simp
  ultimately show ?case using Cons.IH x by simp
qed

lemma classifier_loop_raises:
  assumes "\<forall>(c, e) \<in> set items. class_similarity clf px e = Inl err \<or>
             (\<exists>s. class_similarity clf px e = Inr s)"
    and "\<exists>(c, e) \<in> set items. class_similarity clf px e = Inl err"
  shows "classifier_loop clf px items (sims, names) = Inl err"
  using assms
proof (induction items arbitrary: sims names)
  case Nil
  then show ?case by simp
next
  case (Cons x items)
  obtain c e where x: "x = (c, e)" by (cases x)
  show ?case
  proof (cases "class_similarity clf px e")
    case (Inl a)
    with Cons.prems(1) x have "a = err" by auto
    with Inl x show ?thesis by simp
  next
    case (Inr s)
    with Cons.prems(2) x have "\<exists>(c, e) \<in> set items. class_similarity clf px e = Inl err"
      by auto
    moreover from Cons.prems(1) have "\<forall>(c, e) \<in> set items.
        class_similarity clf px e = Inl err \<or> (\<exists>s. class_similarity clf px e = Inr s)"
      by simp
    ultimately show ?thesis using Cons.IH Inr x by simp
  qed
qed

lemma torch_stack_ok:
  assumes "columns \<noteq> []" and "\<forall>c \<in> set columns. length c = n"
  shows "torch_stack columns =
           Inr \<lparr>ncols = length columns, rows = map (\<lambda>i. map (\<lambda>c. c ! i) columns) [0..<n]\<rparr>"
proof -
  from assms have "length (hd columns) = n" by (cases columns) simp_all
  with assms show ?thesis by (simp add: torch_stack_def)
qed



lemma classifier_forward_ConVIRT:
  assumes ne: "P \<noteq> []"
    and ok: "ens \<or> (\<forall>(c, e) \<in> set P. ncols (class_logits m px e) \<noteq> 0)"
  shows "ConVIRTClassifier_forward \<lparr>model = ConVIRT_forward m, ensemble = ens\<rparr> px P =
     Inr \<lparr>class_similarities =
            \<lparr>ncols = length P,
             rows = map (\<lambda>i. map (\<lambda>(c, e). reduce_rows ens (class_logits m px e) ! i) P)
                      [0..<length (image_model m px)]\<rparr>,
          class_names = map fst P\<rparr>"
proof -
  let ?clf = "\<lparr>model = ConVIRT_forward m, ensemble = ens\<rparr>"
  let ?f = "\<lambda>e. reduce_rows ens (class_logits m px e)"
  let ?cols = "map (\<lambda>(c, e). ?f e) P"
  from ok have "\<forall>(c, e) \<in> set P. class_similarity ?clf px e = Inr (?f e)"
    by (auto simp: class_similarity_ConVIRT)
  then have loop: "classifier_loop ?clf px P ([], []) = Inr (?cols, map fst P)"
    using classifier_loop_ok[of P ?clf px ?f "[]" "[]"] by simp
  have "?cols \<noteq> []" using ne by simp
  moreover have "\<forall>c \<in> set ?cols. length c = length (image_model m px)"
    by (auto simp: reduce_rows_def class_logits_shape)
  ultimately have "torch_stack ?cols =
      Inr \<lparr>ncols = length ?cols,
           rows = map (\<lambda>i. map (\<lambda>c. c ! i) ?cols) [0..<length (image_model m px)]\<rparr>"
    by (rule torch_stack_ok)
  then show ?thesis
    by (simp add: ConVIRTClassifier_forward_def loop comp_def case_prod_unfold)
qed

lemma classifier_forward_entries:
  assumes bp: "batch_preserving m"
    and ne: "prompt_inputs \<noteq> []"
    and ok: "ens \<or> (\<forall>(c, e) \<in> set prompt_inputs. input_ids e \<noteq> [])"
  shows "\<exists>out. ConVIRTClassifier_forward \<lparr>model = ConVIRT_forward m, ensemble = ens\<rparr> px
               prompt_inputs = Inr out
     \<and> class_names out = map fst prompt_inputs
     \<and> ncols (class_similarities out) = length prompt_inputs
     \<and> length (rows (class_similarities out)) = length px
     \<and> (\<forall>i < length px. \<forall>k < length prompt_inputs.
          length (rows (class_logits m px (snd (prompt_inputs ! k))) ! i)
            = length (input_ids (snd (prompt_inputs ! k)))
          \<and> rows (class_similarities out) ! i ! k
            = (if ens then row_mean (rows (class_logits m px (snd (prompt_inputs ! k))) ! i)
               else row_max (rows (class_logits m px (snd (prompt_inputs ! k))) ! i)))"
proof -
  from bp have il: "length (image_model m px) = length px"
    and tl: "\<And>e. length (text_model m (input_ids e) (attention_mask e)) = length (input_ids e)"
    by (simp_all add: batch_preserving_def)
  from ok have ok': "ens \<or> (\<forall>(c, e) \<in> set prompt_inputs. ncols (class_logits m px e) \<noteq> 0)"
    by (auto simp: class_logits_shape tl)
  let ?out = "\<lparr>class_similarities =
            \<lparr>ncols = length prompt_inputs,
             rows = map (\<lambda>i. map (\<lambda>(c, e). reduce_rows ens (class_logits m px e) ! i)
                      prompt_inputs) [0..<length (image_model m px)]\<rparr>,
          class_names = map fst prompt_inputs\<rparr>"
  have run: "ConVIRTClassifier_forward \<lparr>model = ConVIRT_forward m, ensemble = ens\<rparr> px
      prompt_inputs = Inr ?out"
    by (rule classifier_forward_ConVIRT[OF ne ok'])
  have entries: "length (rows (class_logits m px (snd (prompt_inputs ! k))) ! i)
            = length (input_ids (snd (prompt_inputs ! k)))
          \<and> rows (class_similarities ?out) ! i ! k
            = (if ens then row_mean (rows (class_logits m px (snd (prompt_inputs ! k))) ! i)
               else row_max (rows (class_logits m px (snd (prompt_inputs ! k))) ! i))"
    if i: "i < length px" and k: "k < length prompt_inputs" for i k
  proof -
    let ?t = "class_logits m px (snd (prompt_inputs ! k))"
    have len: "length (rows ?t) = length px" by (simp add: class_logits_shape il)
    with i have "rows ?t ! i \<in> set (rows ?t)" by simp
    then have "length (rows ?t ! i) = ncols ?t"
      using class_logits_shape(3)[of m px "snd (prompt_inputs ! k)"]
      by (simp add: wf_tensor_def)
    then have a: "length (rows ?t ! i) = length (input_ids (snd (prompt_inputs ! k)))"
      by (simp add: class_logits_shape tl)
    have "rows (class_similarities ?out) ! i ! k = reduce_rows ens ?t ! i"
      using i k il by (simp add: case_prod_unfold)
    also have "\<dots> = (if ens then row_mean (rows ?t ! i) else row_max (rows ?t ! i))"
      using i len by (simp add: reduce_rows_def)
    finally show ?thesis using a by simp
  qed
  have "class_names ?out = map fst prompt_inputs
     \<and> ncols (class_similarities ?out) = length prompt_inputs
     \<and> length (rows (class_similarities ?out)) = length px"
    by (simp add: il)
  with run entries show ?thesis by blast
qed

lemma toy_class_logits:
  "class_logits toy_model toy_images three_prompts
     = \<lparr>ncols = 3, rows = [[Num 6, Num 8, Num 6], [Num 0, Num 10, Num 0]]\<rparr>"
  "class_logits toy_model toy_images one_prompt = \<lparr>ncols = 1, rows = [[Num 8], [Num 10]]\<rparr>"
  "class_logits toy_model toy_images no_prompt = \<lparr>ncols = 0, rows = [[], []]\<rparr>"
  by (simp_all add: class_logits_def toy_model_def toy_images_def three_prompts_def
      one_prompt_def no_prompt_def ConVIRT_init_def toy_resnet_def toy_bert_def toy_head_def
      normalize_examples matmul_t_def tensor_div_def dot_def ssum_def)

lemma toy_image_count: "length (image_model toy_model toy_images) = 2"
  by (simp add: toy_model_def toy_images_def ConVIRT_init_def toy_resnet_def)

lemma toy_classifier_mean:
  "ConVIRTClassifier_forward \<lparr>model = ConVIRT_forward toy_model, ensemble = True\<rparr>
     toy_images toy_prompt_inputs =
   Inr \<lparr>class_similarities = \<lparr>ncols = 2, rows = [[Num (20/3), Num 8], [Num (10/3), Num 10]]\<rparr>,
        class_names = [''Edema'', ''Normal'']\<rparr>"
proof -
  have ne: "toy_prompt_inputs \<noteq> []" by (simp add: toy_prompt_inputs_def)
  show ?thesis
    unfolding classifier_forward_ConVIRT[OF ne, of True toy_model toy_images, simplified]
    by (simp add: toy_prompt_inputs_def toy_class_logits toy_image_count reduce_rows_def
        row_mean_def ssum_def upt_rec)
qed

lemma toy_classifier_max:
  "ConVIRTClassifier_forward \<lparr>model = ConVIRT_forward toy_model, ensemble = False\<rparr>
     toy_images toy_prompt_inputs =
   Inr \<lparr>class_similarities = \<lparr>ncols = 2, rows = [[Num 8, Num 8], [Num 10, Num 10]]\<rparr>,
        class_names = [''Edema'', ''Normal'']\<rparr>"
proof -
  have ne: "toy_prompt_inputs \<noteq> []" by (simp add: toy_prompt_inputs_def)
  have ok: "False \<or> (\<forall>(c, e) \<in> set toy_prompt_inputs.
      ncols (class_logits toy_model toy_images e) \<noteq> 0)"
    by (simp add: toy_prompt_inputs_def toy_class_logits)
  show ?thesis
    unfolding classifier_forward_ConVIRT[OF ne ok]
    by (simp add: toy_prompt_inputs_def toy_class_logits toy_image_count reduce_rows_def upt_rec)
qed

lemma empty_class_mean:
  "ConVIRTClassifier_forward \<lparr>model = ConVIRT_forward toy_model, ensemble = True\<rparr>
     toy_images empty_class_inputs =
   Inr \<lparr>class_similarities = \<lparr>ncols = 2, rows = [[NaN, Num 8], [NaN, Num 10]]\<rparr>,
        class_names = [''Edema'', ''Normal'']\<rparr>"
proof -
  have ne: "empty_class_inputs \<noteq> []" by (simp add: empty_class_inputs_def)
  show ?thesis
    unfolding classifier_forward_ConVIRT[OF ne, of True toy_model toy_images, simplified]
    by (simp add: empty_class_inputs_def toy_class_logits toy_image_count reduce_rows_def
        row_mean_def ssum_def upt_rec)
qed


lemma class_similarity_cong:
  assumes "\<forall>ids px att. model clf1 ids px att False = model clf2 ids px att False"
    and "ensemble clf1 = ensemble clf2"
  shows "class_similarity clf1 px e = class_similarity clf2 px e"
  using assms by (simp add: class_similarity_def)

lemma classifier_loop_cong:
  assumes "\<forall>ids px att. model clf1 ids px att False = model clf2 ids px att False"
    and "ensemble clf1 = ensemble clf2"
  shows "classifier_loop clf1 px items acc = classifier_loop clf2 px items acc"
proof (induction items arbitrary: acc)
  case Nil
  then show ?case by simp
next
  case (Cons x items)
  obtain c e where x: "x = (c, e)" by (cases x)
  obtain sims names where acc: "acc = (sims, names)" by (cases acc)
  show ?case
    unfolding x acc using Cons.IH class_similarity_cong[OF assms, of px e] by simp
qed


text \<open>
  Claim C1, as amended. For every image batch and every non-empty tokenized prompt set
  whose classes, when the ensemble flag is false, all have at least one prompt, the
  classifier head returns: the class names in the iteration order of the prompt set, and
  a class-similarity matrix with one row per image and one column per class in that same
  order, whose entry for image \<open>i\<close> and class \<open>k\<close> is row \<open>i\<close> of the image-by-prompt
  logit matrix of class \<open>k\<close> (one logit per prompt of the class) reduced by the
  arithmetic mean when the ensemble flag is true and by the maximum when it is false. On
  a row of numbers the two reductions are the sum divided by the length and the greatest
  element. The networks are assumed to return one row per batch element.
\<close>

theorem classifier_head_reduces:
  assumes bp: "batch_preserving m"
    and ne: "prompt_inputs \<noteq> []"
    and ok: "ens \<or> (\<forall>(c, e) \<in> set prompt_inputs. input_ids e \<noteq> [])"
  shows "(\<exists>out. ConVIRTClassifier_forward \<lparr>model = ConVIRT_forward m, ensemble = ens\<rparr> px
               prompt_inputs = Inr out
     \<and> class_names out = map fst prompt_inputs
     \<and> ncols (class_similarities out) = length prompt_inputs
     \<and> length (rows (class_similarities out)) = length px
     \<and> (\<forall>i < length px. \<forall>k < length prompt_inputs.
          length (rows (class_logits m px (snd (prompt_inputs ! k))) ! i)
            = length (input_ids (snd (prompt_inputs ! k)))
          \<and> rows (class_similarities out) ! i ! k
            = (if ens then row_mean (rows (class_logits m px (snd (prompt_inputs ! k))) ! i)
               else row_max (rows (class_logits m px (snd (prompt_inputs ! k))) ! i))))
     \<and> (\<forall>xs. xs \<noteq> [] \<longrightarrow>
          row_mean (map Num xs) = Num (sum_list xs / real (length xs)) \<and>
          row_max (map Num xs) = Num (Max (set xs)))"
  using classifier_forward_entries[OF bp ne ok, of px]
  by (simp add: row_mean_Num row_max_Num)


text \<open>
  The theorem on two images and a prompt set with three prompts for Edema and one for
  Normal. The logits of Edema are \<open>(6, 8, 6)\<close> for the first image and \<open>(0, 10, 0)\<close> for
  the second: the means are \<open>20/3\<close> and \<open>10/3\<close>, the maxima 8 and 10.
\<close>

theorem classifier_head_witness:
  "batch_preserving toy_model
   \<and> toy_prompt_inputs \<noteq> []
   \<and> (\<exists>out. ConVIRTClassifier_forward \<lparr>model = ConVIRT_forward toy_model, ensemble = False\<rparr>
         toy_images toy_prompt_inputs = Inr out
       \<and> class_names out = map fst toy_prompt_inputs
       \<and> ncols (class_similarities out) = length toy_prompt_inputs
       \<and> length (rows (class_similarities out)) = length toy_images)
   \<and> class_logits toy_model toy_images three_prompts
       = \<lparr>ncols = 3, rows = [[Num 6, Num 8, Num 6], [Num 0, Num 10, Num 0]]\<rparr>
   \<and> ConVIRTClassifier_forward \<lparr>model = ConVIRT_forward toy_model, ensemble = True\<rparr>
       toy_images toy_prompt_inputs =
     Inr \<lparr>class_similarities =
            \<lparr>ncols = 2, rows = [[Num (20/3), Num 8], [Num (10/3), Num 10]]\<rparr>,
          class_names = [''Edema'', ''Normal'']\<rparr>
   \<and> ConVIRTClassifier_forward \<lparr>model = ConVIRT_forward toy_model, ensemble = False\<rparr>
       toy_images toy_prompt_inputs =
     Inr \<lparr>class_similarities = \<lparr>ncols = 2, rows = [[Num 8, Num 8], [Num 10, Num 10]]\<rparr>,
          class_names = [''Edema'', ''Normal'']\<rparr>"
proof -
  have ne: "toy_prompt_inputs \<noteq> []" by (simp add: toy_prompt_inputs_def)
  have ok: "False \<or> (\<forall>(c, e) \<in> set toy_prompt_inputs. input_ids e \<noteq> [])"
    by (simp add: toy_prompt_inputs_def three_prompts_def one_prompt_def)
  from classifier_head_reduces[OF toy_batch_preserving ne ok, of toy_images]
  have "\<exists>out. ConVIRTClassifier_forward \<lparr>model = ConVIRT_forward toy_model, ensemble = False\<rparr>
         toy_images toy_prompt_inputs = Inr out
       \<and> class_names out = map fst toy_prompt_inputs
       \<and> ncols (class_similarities out) = length toy_prompt_inputs
       \<and> length (rows (class_similarities out)) = length toy_images"
    by (elim conjE exE) (intro exI conjI, assumption+)
  with toy_batch_preserving ne toy_class_logits(1) toy_classifier_mean toy_classifier_max
  show ?thesis by (intro conjI)
qed


text \<open>
  Claim C1 as it is worded covers every tokenized prompt set. On an empty prompt set
  there is nothing to stack and \<^verbatim>\<open>torch.stack\<close> raises; on a class without prompts
  \<^verbatim>\<open>torch.max\<close> raises.
\<close>

theorem classifier_head_raises_counterexample:
  "ConVIRTClassifier_forward \<lparr>model = ConVIRT_forward toy_model, ensemble = True\<rparr>
     toy_images [] = Inl RuntimeError
   \<and> ConVIRTClassifier_forward \<lparr>model = ConVIRT_forward toy_model, ensemble = False\<rparr>
     toy_images [(''Edema'', no_prompt)] = Inl IndexError"
proof -
  have "class_similarity \<lparr>model = ConVIRT_forward toy_model, ensemble = False\<rparr>
      toy_images no_prompt = Inl IndexError"
    by (simp add: class_similarity_ConVIRT toy_class_logits)
  then show ?thesis
    by (simp add: ConVIRTClassifier_forward_def torch_stack_def)
qed


text \<open>
  Claim C5, as amended. For every tokenized prompt set containing a class with zero
  prompts, the classifier head raises under the max policy (ensemble false). Under the
  mean policy (ensemble true) it raises nothing: it returns, and the column of every
  class without prompts is NaN for every image. The networks are assumed to return one
  row per batch element.
\<close>

theorem empty_class_reduction:
  assumes bp: "batch_preserving m"
    and mem: "(c, e) \<in> set prompt_inputs"
    and emp: "input_ids e = []"
  shows "ConVIRTClassifier_forward \<lparr>model = ConVIRT_forward m, ensemble = False\<rparr> px
           prompt_inputs = Inl IndexError
     \<and> (\<exists>out. ConVIRTClassifier_forward \<lparr>model = ConVIRT_forward m, ensemble = True\<rparr> px
            prompt_inputs = Inr out
          \<and> class_names out = map fst prompt_inputs
          \<and> (\<forall>i < length px. \<forall>k < length prompt_inputs.
               input_ids (snd (prompt_inputs ! k)) = [] \<longrightarrow>
               rows (class_similarities out) ! i ! k = NaN))"
proof
  let ?clf = "\<lparr>model = ConVIRT_forward m, ensemble = False\<rparr>"
  from bp have tl:
    "\<And>e. length (text_model m (input_ids e) (attention_mask e)) = length (input_ids e)"
    by (simp add: batch_preserving_def)
  have "ncols (class_logits m px e) = 0"
    using tl[of e] by (simp add: class_logits_shape emp)
  then have "class_similarity ?clf px e = Inl IndexError"
    by (simp add: class_similarity_ConVIRT)
  with mem have ex: "\<exists>(c, e) \<in> set prompt_inputs. class_similarity ?clf px e = Inl IndexError"
    by auto
  have "\<forall>(c, e) \<in> set prompt_inputs. class_similarity ?clf px e = Inl IndexError \<or>
      (\<exists>s. class_similarity ?clf px e = Inr s)"
    by (simp add: class_similarity_ConVIRT)
  from classifier_loop_raises[OF this ex, of "[]" "[]"]
  show "ConVIRTClassifier_forward ?clf px prompt_inputs = Inl IndexError"
    by (simp add: ConVIRTClassifier_forward_def)
next
  from mem have ne: "prompt_inputs \<noteq> []" by auto
  from classifier_forward_entries[OF bp ne, of True px] obtain out where
    run: "ConVIRTClassifier_forward \<lparr>model = ConVIRT_forward m, ensemble = True\<rparr> px
               prompt_inputs = Inr out"
    and names: "class_names out = map fst prompt_inputs"
    and entries: "\<forall>i < length px. \<forall>k < length prompt_inputs.
          length (rows (class_logits m px (snd (prompt_inputs ! k))) ! i)
            = length (input_ids (snd (prompt_inputs ! k)))
          \<and> rows (class_similarities out) ! i ! k
            = row_mean (rows (class_logits m px (snd (prompt_inputs ! k))) ! i)"
    by auto
  have "rows (class_similarities out) ! i ! k = NaN"
    if "i < length px" "k < length prompt_inputs" "input_ids (snd (prompt_inputs ! k)) = []"
    for i k
  proof -
    from entries that(1,2) have
      l: "length (rows (class_logits m px (snd (prompt_inputs ! k))) ! i)
            = length (input_ids (snd (prompt_inputs ! k)))"
      and v: "rows (class_similarities out) ! i ! k
            = row_mean (rows (class_logits m px (snd (prompt_inputs ! k))) ! i)"
      by blast+
    from l that(3) have "rows (class_logits m px (snd (prompt_inputs ! k))) ! i = []"
      by simp
    with v show ?thesis by (simp add: row_mean_def ssum_def)
  qed
  with run names show "\<exists>out. ConVIRTClassifier_forward
      \<lparr>model = ConVIRT_forward m, ensemble = True\<rparr> px prompt_inputs = Inr out
          \<and> class_names out = map fst prompt_inputs
          \<and> (\<forall>i < length px. \<forall>k < length prompt_inputs.
               input_ids (snd (prompt_inputs ! k)) = [] \<longrightarrow>
               rows (class_similarities out) ! i ! k = NaN)"
    by blast
qed


text \<open>The theorem on two images and a prompt set whose first class has no prompt.\<close>

theorem empty_class_witness:
  "batch_preserving toy_model
   \<and> (''Edema'', no_prompt) \<in> set empty_class_inputs
   \<and> input_ids no_prompt = []
   \<and> ConVIRTClassifier_forward \<lparr>model = ConVIRT_forward toy_model, ensemble = False\<rparr>
       toy_images empty_class_inputs = Inl IndexError
   \<and> ConVIRTClassifier_forward \<lparr>model = ConVIRT_forward toy_model, ensemble = True\<rparr>
       toy_images empty_class_inputs =
     Inr \<lparr>class_similarities = \<lparr>ncols = 2, rows = [[NaN, Num 8], [NaN, Num 10]]\<rparr>,
          class_names = [''Edema'', ''Normal'']\<rparr>"
proof -
  have mem: "(''Edema'', no_prompt) \<in> set empty_class_inputs"
    by (simp add: empty_class_inputs_def)
  have emp: "input_ids no_prompt = []" by (simp add: no_prompt_def)
  from empty_class_reduction[OF toy_batch_preserving mem emp, of toy_images]
  have "ConVIRTClassifier_forward \<lparr>model = ConVIRT_forward toy_model, ensemble = False\<rparr>
       toy_images empty_class_inputs = Inl IndexError"
    by (rule conjunct1)
  with toy_batch_preserving mem emp empty_class_mean show ?thesis by (intro conjI)
qed


text \<open>
  Claim C5 as it is worded has the classifier head raise under both policies. Under the
  mean policy the prompt set whose first class has no prompt is classified without any
  exception: the column of that class is NaN.
\<close>

theorem empty_class_mean_counterexample:
  "ConVIRTClassifier_forward \<lparr>model = ConVIRT_forward toy_model, ensemble = True\<rparr>
     toy_images empty_class_inputs =
   Inr \<lparr>class_similarities = \<lparr>ncols = 2, rows = [[NaN, Num 8], [NaN, Num 10]]\<rparr>,
        class_names = [''Edema'', ''Normal'']\<rparr>
   \<and> input_ids (snd (empty_class_inputs ! 0)) = []"
  using empty_class_mean by (simp add: empty_class_inputs_def no_prompt_def)

text \<open>
  Claim C10. The forward pass without loss always returns, with \<^verbatim>\<open>loss_value\<close>
  \<^verbatim>\<open>None\<close>, whatever the sizes of the two batches. The classifier head calls its model
  with \<^verbatim>\<open>return_loss=False\<close> only: any model that agrees with the dual encoder on the
  calls without loss gives the same classification, whatever it does when the loss is
  requested, so \<^verbatim>\<open>compute_loss\<close> and its failure on batches of different sizes are
  never reached.
\<close>

theorem classifier_never_computes_loss:
  "(\<exists>out. ConVIRT_forward m ids px att False = Inr out \<and> loss_value out = None)
   \<and> ((\<forall>ids px att. other ids px att False = ConVIRT_forward m ids px att False) \<longrightarrow>
        ConVIRTClassifier_forward \<lparr>model = other, ensemble = ens\<rparr> px prompt_inputs
          = ConVIRTClassifier_forward \<lparr>model = ConVIRT_forward m, ensemble = ens\<rparr> px
              prompt_inputs)"
proof (intro conjI impI)
  show "\<exists>out. ConVIRT_forward m ids px att False = Inr out \<and> loss_value out = None"
    by (simp add: forward_no_loss)
next
  assume "\<forall>ids px att. other ids px att False = ConVIRT_forward m ids px att False"
  then have "classifier_loop \<lparr>model = other, ensemble = ens\<rparr> px prompt_inputs ([], [])
      = classifier_loop \<lparr>model = ConVIRT_forward m, ensemble = ens\<rparr> px prompt_inputs ([], [])"
    by (intro classifier_loop_cong) simp_all
  then show "ConVIRTClassifier_forward \<lparr>model = other, ensemble = ens\<rparr> px prompt_inputs
      = ConVIRTClassifier_forward \<lparr>model = ConVIRT_forward m, ensemble = ens\<rparr> px prompt_inputs"
    by (simp add: ConVIRTClassifier_forward_def)
qed


text \<open>
  The theorem on two images and a class of three prompts: the pass with loss raises, the
  pass without loss returns, and the classification is that of a model whose pass with
  loss always raises.
\<close>

theorem classifier_never_computes_loss_witness:
  "(\<exists>out. ConVIRT_forward toy_model (input_ids three_prompts) toy_images
             (attention_mask three_prompts) False = Inr out \<and> loss_value out = None)
   \<and> ConVIRT_forward toy_model (input_ids three_prompts) toy_images
        (attention_mask three_prompts) True = Inl IndexError
   \<and> ConVIRTClassifier_forward
        \<lparr>model = (\<lambda>ids px att return_loss.
                    if return_loss then Inl RuntimeError
                    else ConVIRT_forward toy_model ids px att False),
         ensemble = True\<rparr> toy_images toy_prompt_inputs
      = ConVIRTClassifier_forward \<lparr>model = ConVIRT_forward toy_model, ensemble = True\<rparr>
          toy_images toy_prompt_inputs
   \<and> ConVIRTClassifier_forward \<lparr>model = ConVIRT_forward toy_model, ensemble = True\<rparr>
        toy_images toy_prompt_inputs =
      Inr \<lparr>class_similarities =
             \<lparr>ncols = 2, rows = [[Num (20/3), Num 8], [Num (10/3), Num 10]]\<rparr>,
           class_names = [''Edema'', ''Normal'']\<rparr>"
proof -
  let ?other = "\<lambda>ids px att return_loss.
      if return_loss then Inl RuntimeError else ConVIRT_forward toy_model ids px att False"
  note inst = classifier_never_computes_loss[of toy_model "input_ids three_prompts" toy_images
      "attention_mask three_prompts" ?other True toy_prompt_inputs]
  have h: "\<forall>ids px att. ?other ids px att False = ConVIRT_forward toy_model ids px att False"
    by simp
  have a: "\<exists>out. ConVIRT_forward toy_model (input_ids three_prompts) toy_images
             (attention_mask three_prompts) False = Inr out \<and> loss_value out = None"
    using inst by (rule conjunct1)
  have b: "ConVIRTClassifier_forward \<lparr>model = ?other, ensemble = True\<rparr> toy_images
        toy_prompt_inputs
      = ConVIRTClassifier_forward \<lparr>model = ConVIRT_forward toy_model, ensemble = True\<rparr>
          toy_images toy_prompt_inputs"
    using inst[THEN conjunct2, THEN mp, OF h] .
  have "length (image_model toy_model toy_images)
      \<noteq> length (text_model toy_model (input_ids three_prompts) (attention_mask three_prompts))"
    by (simp add: toy_model_def toy_images_def three_prompts_def ConVIRT_init_def
        toy_resnet_def toy_bert_def)
  then have c: "ConVIRT_forward toy_model (input_ids three_prompts) toy_images
        (attention_mask three_prompts) True = Inl IndexError"
    by (rule forward_loss_mismatch)
  from a c b toy_classifier_mean show ?thesis by (intro conjI)
qed

end
